theory Spec2Isabelle
  imports Main "HOL-Library.Word"
begin

section \<open>The low memory killer: drivers/staging/android/lowmemorykiller.c\<close>

text \<open>
  The driver registers one shrinker whose scan callback, \<open>lowmem_scan\<close>, is called
  under memory pressure. One call looks up a minimum \<open>oom_score_adj\<close> in the table
  \<open>lowmem_adj\<close> / \<open>lowmem_minfree\<close>, walks the process list for the task with the
  highest \<open>oom_score_adj\<close> (and, among those, the largest resident set), sends it
  SIGKILL and returns its resident size.

  The function is embedded as it is written, one HOL function per loop, with the
  compile-time switches of the file taken as a configuration record.
\<close>

subsection \<open>Machine types and constants\<close>

text \<open>
  \<open>short\<close> is 16 bits and \<open>int\<close> 32 bits; \<open>unsigned long\<close> is taken at 64 bits.
  Arithmetic on words wraps around (the kernel is built with \<open>-fno-strict-overflow\<close>);
  the C comparisons on \<open>short\<close> and \<open>int\<close> are the signed ones, \<open><s\<close> and \<open>\<le>s\<close>.
\<close>

type_synonym cshort = "16 word"
type_synonym cint = "32 word"
type_synonym ulong = "64 word"

text \<open>
  Modelled from the spec: the constant \<open>OOM_SCORE_ADJ_MAX\<close> of include/uapi/linux/oom.h
  is not part of the file. The spec names \<open>OOM_SCORE_ADJ_MAX + 1\<close> the sentinel one above
  the maximum priority; the maximum priority of the kernel is 1000.
\<close>

definition OOM_SCORE_ADJ_MAX :: int where
  "OOM_SCORE_ADJ_MAX = 1000"

text \<open>
  Modelled from the spec: the macro \<open>time_before_eq\<close> of include/linux/jiffies.h is not
  part of the file. The spec's "the global cooldown has not elapsed" is "the current time
  is not past the deadline"; on the free-running counter \<open>jiffies\<close> this is the
  comparison of the difference as a signed \<open>long\<close>, \<open>(long)(b - a) >= 0\<close>.
\<close>

definition time_before_eq :: "ulong \<Rightarrow> ulong \<Rightarrow> bool" where
  "time_before_eq a b \<longleftrightarrow> 0 \<le>s b - a"

subsection \<open>Configuration, parameters and readings\<close>

text \<open>
  The preprocessor switches that change what \<open>lowmem_scan\<close> computes, and the tick rate
  \<open>HZ\<close>. The switches \<open>CONFIG_MP_CMA_PATCH_AGRESSIVE_KILL_PROCESS_TO_FREE_CMA_PAGE\<close>,
  \<open>CONFIG_MP_CMA_PATCH_DELAY_FREE\<close> and \<open>CONFIG_MP_DEBUG_TOOL_MEMORY_USAGE_MONITOR\<close>
  only pass values to other subsystems and to counters that \<open>lowmem_scan\<close> never reads.
\<close>

record lmk_config =
  mstar_policy :: bool  \<comment> \<open>\<open>CONFIG_MP_Android_MSTAR_ADJUST_LOW_MEM_KILLER_POLICY\<close>\<close>
  cma :: bool           \<comment> \<open>\<open>CONFIG_CMA\<close>\<close>
  mma_enable :: bool    \<comment> \<open>\<open>CONFIG_MP_MMA_ENABLE\<close>\<close>
  HZ :: ulong

text \<open>
  The module parameters. Both arrays are declared with six elements; the two sizes are
  the element counts written by the parameter parser.
\<close>

record lmk_params =
  lowmem_adj :: "cshort list"
  lowmem_adj_size :: cint
  lowmem_minfree :: "cint list"
  lowmem_minfree_size :: cint

text \<open>The initial values of the parameters; unlisted array elements are zero.\<close>

definition default_params :: lmk_params where
  "default_params =
     \<lparr> lowmem_adj = [0, 1, 6, 12, 0, 0],
       lowmem_adj_size = 4,
       lowmem_minfree = [3 * 512, 2 * 1024, 4 * 1024, 16 * 1024, 0, 0],
       lowmem_minfree_size = 4 \<rparr>"

text \<open>
  The memory statistics one call reads: the page counters (\<open>unsigned long\<close>), the
  count of ION system pages (\<open>int\<close>), and whether the allocation that caused the call
  is movable (\<open>gfpflags_to_migratetype(sc->gfp_mask) == MIGRATE_MOVABLE\<close>). The counter
  \<open>NR_INACTIVE_FILE\<close> is read for the log lines only and is left out, as are the
  values computed for the trace point and the messages.
\<close>

record vmstat =
  nr_free_pages :: ulong
  totalreserve_pages :: ulong
  nr_file_pages :: ulong
  nr_shmem :: ulong
  nr_unevictable :: ulong
  total_swapcache_pages :: ulong
  nr_active_file :: ulong
  nr_free_cma_pages :: ulong
  total_ion_system_pages :: cint
  migrate_movable :: bool

text \<open>The initialisers of the locals \<open>other_free\<close>, \<open>other_file\<close>, \<open>active_file\<close>, \<open>free_cma\<close>.\<close>

definition other_free :: "vmstat \<Rightarrow> cint" where
  "other_free vm = ucast (nr_free_pages vm - totalreserve_pages vm)"

definition other_file :: "vmstat \<Rightarrow> cint" where
  "other_file vm =
     ucast (nr_file_pages vm - nr_shmem vm - nr_unevictable vm - total_swapcache_pages vm)"

definition active_file :: "vmstat \<Rightarrow> cint" where
  "active_file vm = ucast (nr_active_file vm)"

definition free_cma :: "lmk_config \<Rightarrow> vmstat \<Rightarrow> cint" where
  "free_cma cfg vm =
     (if cma cfg \<and> \<not> migrate_movable vm then ucast (nr_free_cma_pages vm) else 0)"

text \<open>
  \<open>total_free\<close> before the table loop: with the MStar policy it is
  \<open>other_free - free_cma + (other_file - active_file)\<close>, plus the ION pages with
  \<open>CONFIG_MP_MMA_ENABLE\<close>; without the policy the variable does not exist (0 here).
\<close>

definition total_free_init :: "lmk_config \<Rightarrow> vmstat \<Rightarrow> cint" where
  "total_free_init cfg vm =
     (if mstar_policy cfg then
        (let total_free = other_free vm - free_cma cfg vm + (other_file vm - active_file vm)
         in if mma_enable cfg then total_free + total_ion_system_pages vm else total_free)
      else 0)"

subsection \<open>The tier table lookup\<close>

text \<open>
  \<open>array_size\<close> starts as \<open>ARRAY_SIZE(lowmem_adj)\<close>, which is 6, and is lowered to each
  of the two configured sizes that is smaller.
\<close>

definition array_size :: "lmk_params \<Rightarrow> cint" where
  "array_size prm =
     (let array_size = (6 :: cint);
          array_size = (if lowmem_adj_size prm <s array_size then lowmem_adj_size prm
                        else array_size);
          array_size = (if lowmem_minfree_size prm <s array_size then lowmem_minfree_size prm
                        else array_size)
      in array_size)"

text \<open>
  The test of one table entry. With the MStar policy the running \<open>total_free\<close> is
  compared with the entry's threshold; without it both \<open>other_free - free_cma\<close> and
  \<open>other_file\<close> must be below the threshold.
\<close>

definition below_minfree :: "lmk_config \<Rightarrow> vmstat \<Rightarrow> cint \<Rightarrow> cint \<Rightarrow> bool" where
  "below_minfree cfg vm total_free minfree =
     (if mstar_policy cfg then total_free <s minfree
      else (other_free vm - free_cma cfg vm) <s minfree \<and> other_file vm <s minfree)"

text \<open>
  With the MStar policy, an entry whose priority is 0 adds \<open>active_file\<close> to
  \<open>total_free\<close> before the comparison, every time such an entry is reached.
\<close>

definition bump_total_free :: "lmk_config \<Rightarrow> vmstat \<Rightarrow> cshort \<Rightarrow> cint \<Rightarrow> cint" where
  "bump_total_free cfg vm adj total_free =
     (if mstar_policy cfg \<and> adj = 0 then total_free + active_file vm else total_free)"

text \<open>
  The locals the loop leaves behind: \<open>min_score_adj\<close>, \<open>minfree\<close> and \<open>total_free\<close>.
\<close>

record tier_locals =
  min_score_adj :: cshort
  minfree :: cint
  total_free :: cint

text \<open>
  The loop \<open>for (i = 0; i < array_size; i++)\<close>, from index \<open>i\<close> with bound \<open>n\<close>. It
  stops at the first entry that passes the test, with that entry's priority; an
  exhausted loop leaves \<open>min_score_adj\<close> at its initial value \<open>OOM_SCORE_ADJ_MAX + 1\<close>.
\<close>

function tier_loop ::
  "lmk_config \<Rightarrow> lmk_params \<Rightarrow> vmstat \<Rightarrow> nat \<Rightarrow> nat \<Rightarrow> cint \<Rightarrow> cint \<Rightarrow> tier_locals" where
  "tier_loop cfg prm vm n i mf tf =
     (if i < n then
        (let mf' = lowmem_minfree prm ! i;
             tf' = bump_total_free cfg vm (lowmem_adj prm ! i) tf
         in if below_minfree cfg vm tf' mf'
            then \<lparr> min_score_adj = lowmem_adj prm ! i, minfree = mf', total_free = tf' \<rparr>
            else tier_loop cfg prm vm n (Suc i) mf' tf')
      else \<lparr> min_score_adj = word_of_int (OOM_SCORE_ADJ_MAX + 1), minfree = mf,
             total_free = tf \<rparr>)"
  by pat_completeness auto
termination
  by (relation "measure (\<lambda>(cfg, prm, vm, n, i, mf, tf). n - i)") auto

declare tier_loop.simps [simp del]

text \<open>The whole lookup: the loop from index 0 with \<open>minfree = 0\<close>; a negative bound runs no iteration.\<close>

definition tier_lookup :: "lmk_config \<Rightarrow> lmk_params \<Rightarrow> vmstat \<Rightarrow> tier_locals" where
  "tier_lookup cfg prm vm =
     tier_loop cfg prm vm (nat (sint (array_size prm))) 0 0 (total_free_init cfg vm)"

text \<open>The test \<open>min_score_adj == OOM_SCORE_ADJ_MAX + 1\<close>, on the promoted values.\<close>

definition no_cutoff :: "cshort \<Rightarrow> bool" where
  "no_cutoff adj \<longleftrightarrow> sint adj = OOM_SCORE_ADJ_MAX + 1"

subsection \<open>The process scan\<close>

text \<open>
  One entry of the process list, as the loop body reads it: the \<open>PF_KTHREAD\<close> flag of
  \<open>tsk\<close>, whether \<open>find_lock_task_mm(tsk)\<close> found a thread \<open>p\<close> with an address space,
  and of that thread the lowmemorykiller-waiting flag, \<open>p->signal->oom_score_adj\<close> and
  \<open>get_mm_rss(p->mm)\<close> as stored in the \<open>int tasksize\<close>. The waiting flag is a flag of
  the task that an earlier call marked; it stays set when the task later gives up its
  address space, but the loop body reads it only after an address space was found.
\<close>

record task =
  pf_kthread :: bool
  has_mm :: bool
  lmk_waiting :: bool
  oom_score_adj :: cshort
  rss :: cint

text \<open>
  The locals \<open>selected\<close> (an index into the process list, \<open>None\<close> for \<open>NULL\<close>),
  \<open>selected_tasksize\<close> and \<open>selected_oom_score_adj\<close>.
\<close>

type_synonym selection = "nat option \<times> cint \<times> cshort"

text \<open>The scan ends either by the early \<open>return 0\<close> inside the loop or at the end of the list.\<close>

datatype scan_result = Deferred | Scanned selection

text \<open>
  The body of \<open>for_each_process\<close>, for the list from position \<open>i\<close> on. \<open>jif\<close> is
  \<open>jiffies\<close>, read once for the call, and \<open>tmo\<close> is \<open>lowmem_deathpending_timeout\<close>.
\<close>

fun scan_tasks ::
  "ulong \<Rightarrow> ulong \<Rightarrow> cshort \<Rightarrow> task list \<Rightarrow> nat \<Rightarrow> selection \<Rightarrow> scan_result" where
  "scan_tasks jif tmo min_adj [] i sel = Scanned sel"
| "scan_tasks jif tmo min_adj (t # ts) i (selected, selected_tasksize, selected_oom_score_adj) =
     (if pf_kthread t then
        scan_tasks jif tmo min_adj ts (Suc i) (selected, selected_tasksize, selected_oom_score_adj)
      else if \<not> has_mm t then
        scan_tasks jif tmo min_adj ts (Suc i) (selected, selected_tasksize, selected_oom_score_adj)
      else if lmk_waiting t \<and> time_before_eq jif tmo then Deferred
      else if oom_score_adj t <s min_adj then
        scan_tasks jif tmo min_adj ts (Suc i) (selected, selected_tasksize, selected_oom_score_adj)
      else if rss t \<le>s 0 then
        scan_tasks jif tmo min_adj ts (Suc i) (selected, selected_tasksize, selected_oom_score_adj)
      else if selected \<noteq> None \<and> oom_score_adj t <s selected_oom_score_adj then
        scan_tasks jif tmo min_adj ts (Suc i) (selected, selected_tasksize, selected_oom_score_adj)
      else if selected \<noteq> None \<and> oom_score_adj t = selected_oom_score_adj
                \<and> rss t \<le>s selected_tasksize then
        scan_tasks jif tmo min_adj ts (Suc i) (selected, selected_tasksize, selected_oom_score_adj)
      else scan_tasks jif tmo min_adj ts (Suc i) (Some i, rss t, oom_score_adj t))"

text \<open>
  The filters of the loop body that do not depend on the running selection: not a kernel
  thread, an address space found, priority not below the cutoff, resident size above 0.
\<close>

definition eligible :: "cshort \<Rightarrow> task \<Rightarrow> bool" where
  "eligible min_adj t \<longleftrightarrow>
     \<not> pf_kthread t \<and> has_mm t \<and> \<not> oom_score_adj t <s min_adj \<and> \<not> rss t \<le>s 0"

subsection \<open>One call of \<open>lowmem_scan\<close>\<close>

text \<open>
  The state a call reads and writes: the cooldown deadline, the process list with its
  flags, and the SIGKILLs sent so far (positions in the process list, oldest first).
\<close>

record lmk_state =
  lowmem_deathpending_timeout :: ulong
  tasks :: "task list"
  sigkill_sent :: "nat list"

text \<open>
  The \<open>if (selected)\<close> block: SIGKILL to the selected task, its waiting flag set when it
  still has an address space, the deadline set to \<open>jiffies + HZ\<close>.
\<close>

definition dispatch :: "lmk_config \<Rightarrow> ulong \<Rightarrow> nat \<Rightarrow> lmk_state \<Rightarrow> lmk_state" where
  "dispatch cfg jif k s =
     s \<lparr> sigkill_sent := sigkill_sent s @ [k],
         tasks := (if has_mm (tasks s ! k)
                   then (tasks s)[k := (tasks s ! k) \<lparr> lmk_waiting := True \<rparr>]
                   else tasks s),
         lowmem_deathpending_timeout := jif + HZ cfg \<rparr>"

text \<open>
  \<open>lowmem_scan\<close>: the value returned (\<open>rem\<close>) and the state after the call. \<open>rem\<close>
  starts at 0 and \<open>selected_tasksize\<close> is added to it as an \<open>unsigned long\<close>.
\<close>

definition lowmem_scan ::
  "lmk_config \<Rightarrow> lmk_params \<Rightarrow> vmstat \<Rightarrow> ulong \<Rightarrow> lmk_state \<Rightarrow> ulong \<times> lmk_state" where
  "lowmem_scan cfg prm vm jif s =
     (let tl = tier_lookup cfg prm vm in
      if no_cutoff (min_score_adj tl) then (0, s)
      else
        (case scan_tasks jif (lowmem_deathpending_timeout s) (min_score_adj tl) (tasks s) 0
                (None, 0, min_score_adj tl) of
           Deferred \<Rightarrow> (0, s)
         | Scanned (None, selected_tasksize, selected_oom_score_adj) \<Rightarrow> (0, s)
         | Scanned (Some k, selected_tasksize, selected_oom_score_adj) \<Rightarrow>
             (0 + scast selected_tasksize, dispatch cfg jif k s)))"

subsection \<open>Notions used to state the properties\<close>

text \<open>
  The replacement test of the scan, between two tasks: \<open>a\<close> beats \<open>b\<close> when neither of
  the two \<open>continue\<close> tests against a selected \<open>b\<close> stops \<open>a\<close>, that is when \<open>a\<close> has the
  higher \<open>oom_score_adj\<close>, or the same \<open>oom_score_adj\<close> and the larger resident size.
\<close>

definition beats :: "task \<Rightarrow> task \<Rightarrow> bool" where
  "beats a b \<longleftrightarrow>
     oom_score_adj b <s oom_score_adj a
     \<or> (oom_score_adj a = oom_score_adj b \<and> rss b <s rss a)"

text \<open>
  The loop invariant of the scan over the tasks \<open>pre\<close> already visited: nothing is
  selected only while no visited task is eligible; a selected task is eligible, its size
  and priority are the recorded ones, no eligible visited task beats it, and it beats
  every eligible task visited before it.
\<close>

definition sel_inv :: "cshort \<Rightarrow> task list \<Rightarrow> selection \<Rightarrow> bool" where
  "sel_inv c pre sel =
     (case sel of
        (None, sz, adj) \<Rightarrow> (\<forall>j<length pre. \<not> eligible c (pre ! j))
      | (Some k, sz, adj) \<Rightarrow>
          k < length pre \<and> eligible c (pre ! k) \<and> sz = rss (pre ! k)
          \<and> adj = oom_score_adj (pre ! k)
          \<and> (\<forall>j<length pre. eligible c (pre ! j) \<longrightarrow>
                \<not> beats (pre ! j) (pre ! k) \<and> (j < k \<longrightarrow> beats (pre ! k) (pre ! j))))"

text \<open>
  The value of \<open>total_free\<close> when entry \<open>i\<close> is compared, and before entry \<open>i\<close> is
  reached: the initial value with \<open>active_file\<close> added once for every priority-0 entry
  up to \<open>i\<close> (with the MStar policy; the initial value otherwise).
\<close>

fun total_free_at :: "lmk_config \<Rightarrow> lmk_params \<Rightarrow> vmstat \<Rightarrow> nat \<Rightarrow> cint" where
  "total_free_at cfg prm vm 0 =
     bump_total_free cfg vm (lowmem_adj prm ! 0) (total_free_init cfg vm)"
| "total_free_at cfg prm vm (Suc i) =
     bump_total_free cfg vm (lowmem_adj prm ! Suc i) (total_free_at cfg prm vm i)"

definition total_free_before :: "lmk_config \<Rightarrow> lmk_params \<Rightarrow> vmstat \<Rightarrow> nat \<Rightarrow> cint" where
  "total_free_before cfg prm vm i =
     (case i of 0 \<Rightarrow> total_free_init cfg vm | Suc j \<Rightarrow> total_free_at cfg prm vm j)"

text \<open>Entry \<open>i\<close> passes the loop's test.\<close>

definition entry_hit :: "lmk_config \<Rightarrow> lmk_params \<Rightarrow> vmstat \<Rightarrow> nat \<Rightarrow> bool" where
  "entry_hit cfg prm vm i \<longleftrightarrow>
     below_minfree cfg vm (total_free_at cfg prm vm i) (lowmem_minfree prm ! i)"

text \<open>The larger of two \<open>int\<close> values.\<close>

definition smax :: "cint \<Rightarrow> cint \<Rightarrow> cint" where
  "smax a b = (if a <s b then b else a)"

subsection \<open>The lookup as the specification words it\<close>

text \<open>
  The specification's evaluator computes one "effectively free" quantity, the free units
  less the reserved ones plus the reclaimable cache units, and looks it up in the table:
  the entries are walked in order and the first one whose threshold strictly exceeds the
  quantity gives the cutoff, the sentinel \<open>OOM_SCORE_ADJ_MAX + 1\<close> standing for "no
  cutoff". The table is the first \<open>array_size\<close> pairs of the two parameter arrays.
\<close>

definition spec_effectively_free :: "lmk_config \<Rightarrow> vmstat \<Rightarrow> cint" where
  "spec_effectively_free cfg vm = other_free vm - free_cma cfg vm + other_file vm"

fun spec_lookup :: "(cshort \<times> cint) list \<Rightarrow> cint \<Rightarrow> cshort" where
  "spec_lookup [] free_units = word_of_int (OOM_SCORE_ADJ_MAX + 1)"
| "spec_lookup ((min_priority, min_free_units) # entries) free_units =
     (if free_units <s min_free_units then min_priority else spec_lookup entries free_units)"

definition tier_table :: "lmk_params \<Rightarrow> (cshort \<times> cint) list" where
  "tier_table prm =
     take (nat (sint (array_size prm))) (zip (lowmem_adj prm) (lowmem_minfree prm))"

subsection \<open>Example data\<close>

definition cfg_plain :: lmk_config where
  "cfg_plain = \<lparr> mstar_policy = False, cma = False, mma_enable = False, HZ = 100 \<rparr>"

definition cfg_mstar :: lmk_config where
  "cfg_mstar = \<lparr> mstar_policy = True, cma = True, mma_enable = False, HZ = 100 \<rparr>"

definition vm_of :: "ulong \<Rightarrow> ulong \<Rightarrow> ulong \<Rightarrow> vmstat" where
  "vm_of free file act =
     \<lparr> nr_free_pages = free, totalreserve_pages = 0, nr_file_pages = file, nr_shmem = 0,
       nr_unevictable = 0, total_swapcache_pages = 0, nr_active_file = act,
       nr_free_cma_pages = 0, total_ion_system_pages = 0, migrate_movable = True \<rparr>"

definition ex_task :: "bool \<Rightarrow> bool \<Rightarrow> cshort \<Rightarrow> cint \<Rightarrow> task" where
  "ex_task kt w adj sz =
     \<lparr> pf_kthread = kt, has_mm = True, lmk_waiting = w, oom_score_adj = adj, rss = sz \<rparr>"

definition ex_tasks :: "task list" where
  "ex_tasks =
     [ex_task False False 8 100, ex_task True False 900 700, ex_task False False 8 500,
      ex_task False False 8 500, ex_task False False 0 9000, ex_task False False 8 0]"

definition ex_state :: lmk_state where
  "ex_state = \<lparr> lowmem_deathpending_timeout = 0, tasks = ex_tasks, sigkill_sent = [] \<rparr>"

text \<open>\<open>ex_state\<close> after a call at \<open>jiffies = 5\<close> that killed the task at position 2.\<close>

definition ex_state_killed :: lmk_state where
  "ex_state_killed =
     \<lparr> lowmem_deathpending_timeout = 105,
       tasks = ex_tasks [2 := ex_task False True 8 500],
       sigkill_sent = [2] \<rparr>"

text \<open>The table of the file's header comment: \<open>adj = 0,8\<close> and \<open>minfree = 1024,4096\<close>.\<close>

definition scenario_params :: lmk_params where
  "scenario_params =
     \<lparr> lowmem_adj = [0, 8, 0, 0, 0, 0], lowmem_adj_size = 2,
       lowmem_minfree = [1024, 4096, 0, 0, 0, 0], lowmem_minfree_size = 2 \<rparr>"

text \<open>Six priorities against three thresholds, and a second table that differs from index 3 on.\<close>

definition short_params :: lmk_params where
  "short_params =
     \<lparr> lowmem_adj = [0, 1, 2, 4, 9, 15], lowmem_adj_size = 6,
       lowmem_minfree = [1024, 2048, 4096, 0, 0, 0], lowmem_minfree_size = 3 \<rparr>"

definition short_params' :: lmk_params where
  "short_params' =
     \<lparr> lowmem_adj = [0, 1, 2, 5, 5, 5], lowmem_adj_size = 6,
       lowmem_minfree = [1024, 2048, 4096, 8192, 8192, 8192], lowmem_minfree_size = 3 \<rparr>"

text \<open>A table whose first priority is negative, so that priority 0 comes second.\<close>

definition negative_params :: lmk_params where
  "negative_params =
     \<lparr> lowmem_adj = [- 500, 0, 8, 0, 0, 0], lowmem_adj_size = 3,
       lowmem_minfree = [512, 1024, 4096, 0, 0, 0], lowmem_minfree_size = 3 \<rparr>"

text \<open>
  \<open>ex_state_killed\<close> a little later: the task killed at position 2 is still in the
  process list and still marked, but has given up its address space.
\<close>

definition ex_state_exiting :: lmk_state where
  "ex_state_exiting =
     \<lparr> lowmem_deathpending_timeout = 105,
       tasks = ex_tasks [2 := (ex_task False True 8 500) \<lparr> has_mm := False \<rparr>],
       sigkill_sent = [2] \<rparr>"

text \<open>A table whose first priority is 1, so that no entry has priority 0.\<close>

definition late_params :: lmk_params where
  "late_params =
     \<lparr> lowmem_adj = [1, 8, 0, 0, 0, 0], lowmem_adj_size = 2,
       lowmem_minfree = [1024, 4096, 0, 0, 0, 0], lowmem_minfree_size = 2 \<rparr>"

text \<open>
  Readings with 5000 free pages and 6000 file pages, 5000 of them active, while 5500
  pages (locked anonymous memory) are unevictable: \<open>other_free\<close> is 5000, \<open>other_file\<close>
  is 500.
\<close>

definition vm_mlocked :: vmstat where
  "vm_mlocked =
     \<lparr> nr_free_pages = 5000, totalreserve_pages = 0, nr_file_pages = 6000, nr_shmem = 0,
       nr_unevictable = 5500, total_swapcache_pages = 0, nr_active_file = 5000,
       nr_free_cma_pages = 0, total_ion_system_pages = 0, migrate_movable = True \<rparr>"

section \<open>Properties\<close>

subsection \<open>Signed comparison and conversion\<close>

lemma word_eq_sint: "(a = b) = (sint a = sint b)" for a b :: "'a::len word"
  by (rule word_eq_iff_signed)

lemma scast_pos:
  fixes x :: cint
  assumes "0 <s x"
  shows "uint (scast x :: ulong) = sint x"
proof -
  have p: "0 < sint x" using assms by (simp add: word_sless_alt)
  have b: "sint x < 2 ^ 31" using sint_lt [of x] by simp
  have "uint (scast x :: ulong) = uint (word_of_int (sint x) :: ulong)"
    by (simp only: scast_eq)
  also have "\<dots> = sint x mod 2 ^ LENGTH(64)"
    by (rule uint_word_of_int)
  also have "\<dots> = sint x" using p b by simp
  finally show ?thesis .
qed

lemma scast_pos_ne: "0 <s x \<Longrightarrow> (scast x :: ulong) \<noteq> 0" for x :: cint
proof
  assume a: "0 <s x" and z: "(scast x :: ulong) = 0"
  from scast_pos [OF a] z have "sint x = 0" by simp
  with a show False by (simp add: word_sless_alt)
qed

subsection \<open>The scan keeps its invariant\<close>

lemma sel_inv_skip:
  "sel_inv c pre sel \<Longrightarrow> \<not> eligible c t \<Longrightarrow> sel_inv c (pre @ [t]) sel"
  by (auto simp: sel_inv_def nth_append less_Suc_eq split: option.splits prod.splits)

lemma sel_inv_keep:
  "sel_inv c pre (Some k, sz, adj) \<Longrightarrow> eligible c t \<Longrightarrow>
   oom_score_adj t <s adj \<or> (oom_score_adj t = adj \<and> rss t \<le>s sz) \<Longrightarrow>
   sel_inv c (pre @ [t]) (Some k, sz, adj)"
  by (auto simp: sel_inv_def nth_append less_Suc_eq beats_def word_sless_alt word_sle_eq
        word_eq_sint)

lemma sel_inv_take:
  "sel_inv c pre (sel, sz, adj) \<Longrightarrow> eligible c t \<Longrightarrow>
   \<not> (sel \<noteq> None \<and> oom_score_adj t <s adj) \<Longrightarrow>
   \<not> (sel \<noteq> None \<and> oom_score_adj t = adj \<and> rss t \<le>s sz) \<Longrightarrow>
   sel_inv c (pre @ [t]) (Some (length pre), rss t, oom_score_adj t)"
  by (cases sel)
    (auto simp: sel_inv_def nth_append less_Suc_eq beats_def word_sless_alt word_sle_eq
       word_eq_sint)

lemma scan_tasks_inv:
  "scan_tasks jif tmo c ts (length pre) sel = Scanned sel' \<Longrightarrow> sel_inv c pre sel \<Longrightarrow>
   sel_inv c (pre @ ts) sel'"
proof (induction ts arbitrary: pre sel)
  case Nil
  then show ?case by simp
next
  case (Cons t ts)
  obtain s sz adj where sel: "sel = (s, sz, adj)" by (cases sel)
  show ?case
  proof (cases "eligible c t")
    case False
    then have "scan_tasks jif tmo c ts (length (pre @ [t])) sel = Scanned sel'"
      using Cons.prems(1) unfolding sel by (auto simp: eligible_def split: if_splits)
    from Cons.IH [OF this sel_inv_skip [OF Cons.prems(2) False]] show ?thesis by simp
  next
    case True
    then have el: "\<not> pf_kthread t" "has_mm t" "\<not> oom_score_adj t <s c" "\<not> rss t \<le>s 0"
      by (simp_all add: eligible_def)
    show ?thesis
    proof (cases "(s \<noteq> None \<and> oom_score_adj t <s adj)
                  \<or> (s \<noteq> None \<and> oom_score_adj t = adj \<and> rss t \<le>s sz)")
      case keep: True
      then obtain k where k: "s = Some k" by auto
      have "scan_tasks jif tmo c ts (length (pre @ [t])) sel = Scanned sel'"
        using Cons.prems(1) keep el unfolding sel by (auto split: if_splits)
      moreover have "sel_inv c (pre @ [t]) sel"
        using sel_inv_keep [of c pre k sz adj t] Cons.prems(2) True keep unfolding sel k
        by auto
      ultimately show ?thesis using Cons.IH by fastforce
    next
      case take: False
      have "scan_tasks jif tmo c ts (length (pre @ [t]))
              (Some (length pre), rss t, oom_score_adj t) = Scanned sel'"
        using Cons.prems(1) take el unfolding sel by (auto split: if_splits)
      moreover have "sel_inv c (pre @ [t]) (Some (length pre), rss t, oom_score_adj t)"
        using sel_inv_take [of c pre s sz adj t] Cons.prems(2) True take unfolding sel
        by auto
      ultimately show ?thesis using Cons.IH by fastforce
    qed
  qed
qed

lemma scan_tasks_selected:
  assumes "scan_tasks jif tmo c ts 0 (None, 0, c) = Scanned (Some k, sz, adj)"
  shows "sel_inv c ts (Some k, sz, adj)"
proof -
  have "sel_inv c ([] @ ts) (Some k, sz, adj)"
    by (rule scan_tasks_inv [where pre = "[]" and sel = "(None, 0, c)"])
       (use assms in \<open>simp_all add: sel_inv_def\<close>)
  then show ?thesis by simp
qed

lemma scan_tasks_step:
  "eligible c t \<Longrightarrow> \<not> (lmk_waiting t \<and> time_before_eq jif tmo) \<Longrightarrow>
   scan_tasks jif tmo c (t # us) i (Some s, ssz, sadj) =
   scan_tasks jif tmo c us (Suc i)
     (if sadj <s oom_score_adj t \<or> (oom_score_adj t = sadj \<and> ssz <s rss t)
      then (Some i, rss t, oom_score_adj t) else (Some s, ssz, sadj))"
  by (auto simp: eligible_def word_sless_alt word_sle_eq word_eq_sint)

text \<open>
  C1. The task the scan returns is eligible and is a first best one: no eligible task
  beats it (none has a higher priority value, none of equal priority has a larger
  resident size), and it beats every eligible task that comes before it in the list, so
  that a tie in both priority and size goes to the task seen first. At each step, an
  eligible task replaces the current selection exactly when its priority value is
  higher, or equal with a strictly larger resident size.
\<close>

theorem scan_selects_first_best:
  "(scan_tasks jif tmo c ts 0 (None, 0, c) = Scanned (Some k, sz, adj) \<longrightarrow>
      k < length ts \<and> eligible c (ts ! k) \<and> sz = rss (ts ! k) \<and> adj = oom_score_adj (ts ! k)
      \<and> (\<forall>j<length ts. eligible c (ts ! j) \<longrightarrow>
            \<not> beats (ts ! j) (ts ! k) \<and> (j < k \<longrightarrow> beats (ts ! k) (ts ! j))))
   \<and> (eligible c t \<and> \<not> (lmk_waiting t \<and> time_before_eq jif tmo) \<longrightarrow>
        scan_tasks jif tmo c (t # us) i (Some s, ssz, sadj) =
        scan_tasks jif tmo c us (Suc i)
          (if sadj <s oom_score_adj t \<or> (oom_score_adj t = sadj \<and> ssz <s rss t)
           then (Some i, rss t, oom_score_adj t) else (Some s, ssz, sadj)))"
proof (rule conjI; rule impI)
  assume "scan_tasks jif tmo c ts 0 (None, 0, c) = Scanned (Some k, sz, adj)"
  from scan_tasks_selected [OF this]
  show "k < length ts \<and> eligible c (ts ! k) \<and> sz = rss (ts ! k) \<and> adj = oom_score_adj (ts ! k)
      \<and> (\<forall>j<length ts. eligible c (ts ! j) \<longrightarrow>
            \<not> beats (ts ! j) (ts ! k) \<and> (j < k \<longrightarrow> beats (ts ! k) (ts ! j)))"
    by (simp add: sel_inv_def)
next
  assume "eligible c t \<and> \<not> (lmk_waiting t \<and> time_before_eq jif tmo)"
  then show "scan_tasks jif tmo c (t # us) i (Some s, ssz, sadj) =
        scan_tasks jif tmo c us (Suc i)
          (if sadj <s oom_score_adj t \<or> (oom_score_adj t = sadj \<and> ssz <s rss t)
           then (Some i, rss t, oom_score_adj t) else (Some s, ssz, sadj))"
    by (intro scan_tasks_step) simp_all
qed

theorem scan_selects_first_best_witness:
  "scan_tasks 0 0 8 ex_tasks 0 (None, 0, 8) = Scanned (Some 2, 500, 8)
   \<and> eligible 8 (ex_tasks ! 2)
   \<and> eligible 8 (ex_tasks ! 3) \<and> \<not> beats (ex_tasks ! 3) (ex_tasks ! 2)
   \<and> eligible 8 (ex_tasks ! 0) \<and> beats (ex_tasks ! 2) (ex_tasks ! 0)
   \<and> eligible 8 (ex_task False False 8 500)
   \<and> scan_tasks 0 0 8 [ex_task False False 8 500] 2 (Some 0, 100, 8) =
       scan_tasks 0 0 8 [] 3 (Some 2, 500, 8)"
proof -
  have h1: "scan_tasks 0 0 8 ex_tasks 0 (None, 0, 8) = Scanned (Some 2, 500, 8)"
    by code_simp
  have h2: "eligible 8 (ex_task False False 8 500)
            \<and> \<not> (lmk_waiting (ex_task False False 8 500) \<and> time_before_eq 0 0)"
    by code_simp
  have h3: "(100 :: cint) <s 500" by code_simp
  have e3: "3 < length ex_tasks" "eligible 8 (ex_tasks ! 3)" by code_simp+
  have e0: "0 < length ex_tasks" "eligible 8 (ex_tasks ! 0)" by code_simp+
  note first_best =
    scan_selects_first_best [of 0 0 8 ex_tasks 2 500 8 "ex_task False False 8 500" "[]" 2 0 100 8]
  from first_best h1 have sel: "eligible 8 (ex_tasks ! 2)"
    and best: "\<forall>j<length ex_tasks. eligible 8 (ex_tasks ! j) \<longrightarrow>
            \<not> beats (ex_tasks ! j) (ex_tasks ! 2) \<and> (j < 2 \<longrightarrow> beats (ex_tasks ! 2) (ex_tasks ! j))"
    by blast+
  from best e3 have b3: "\<not> beats (ex_tasks ! 3) (ex_tasks ! 2)" by blast
  from best e0 have b0: "beats (ex_tasks ! 2) (ex_tasks ! 0)" by simp
  from first_best h2 h3
  have step: "scan_tasks 0 0 8 [ex_task False False 8 500] 2 (Some 0, 100, 8) =
       scan_tasks 0 0 8 [] 3 (Some 2, 500, 8)"
    by (simp add: ex_task_def)
  from h1 sel e3 b3 e0 b0 h2 step show ?thesis by blast
qed

text \<open>
  C2. A task the scan returns is not a kernel thread, has an address space, has a
  resident size strictly above 0 and a priority value at or above the cutoff; the size and
  priority recorded for it are its own. A task that fails one of the filters is never
  the one returned.
\<close>

theorem scan_victim_passes_filters:
  assumes "scan_tasks jif tmo c ts 0 (None, 0, c) = Scanned (Some k, sz, adj)"
  shows "k < length ts \<and> \<not> pf_kthread (ts ! k) \<and> has_mm (ts ! k)
     \<and> 0 <s rss (ts ! k) \<and> c \<le>s oom_score_adj (ts ! k) \<and> 0 <s sz \<and> c \<le>s adj
     \<and> (\<forall>j<length ts. \<not> eligible c (ts ! j) \<longrightarrow> j \<noteq> k)"
proof -
  from scan_tasks_selected [OF assms]
  have k: "k < length ts" and e: "eligible c (ts ! k)"
    and r: "sz = rss (ts ! k)" "adj = oom_score_adj (ts ! k)"
    by (simp_all add: sel_inv_def)
  from e have "\<not> pf_kthread (ts ! k)" "has_mm (ts ! k)" "0 <s rss (ts ! k)"
    "c \<le>s oom_score_adj (ts ! k)"
    by (auto simp: eligible_def word_sless_alt word_sle_eq)
  with k e r show ?thesis by auto
qed

theorem scan_victim_passes_filters_witness:
  "scan_tasks 0 0 8 ex_tasks 0 (None, 0, 8) = Scanned (Some 2, 500, 8)
   \<and> \<not> pf_kthread (ex_tasks ! 2) \<and> 0 <s rss (ex_tasks ! 2) \<and> 8 \<le>s oom_score_adj (ex_tasks ! 2)
   \<and> \<not> eligible 8 (ex_tasks ! 1) \<and> \<not> eligible 8 (ex_tasks ! 4) \<and> \<not> eligible 8 (ex_tasks ! 5)"
proof -
  have h: "scan_tasks 0 0 8 ex_tasks 0 (None, 0, 8) = Scanned (Some 2, 500, 8)"
    by code_simp
  have n: "\<not> eligible 8 (ex_tasks ! 1)" "\<not> eligible 8 (ex_tasks ! 4)"
    "\<not> eligible 8 (ex_tasks ! 5)"
    by code_simp+
  from scan_victim_passes_filters [OF h] h n show ?thesis by blast
qed

text \<open>
  C8. Eligibility is monotone in the cutoff: for cutoffs \<open>c1 < c2\<close>, every task of the
  list that is eligible under \<open>c2\<close> is eligible under \<open>c1\<close>.
\<close>

theorem eligible_antimono:
  "c1 <s c2 \<Longrightarrow> {t \<in> set ts. eligible c2 t} \<subseteq> {t \<in> set ts. eligible c1 t}"
  by (auto simp: eligible_def word_sless_alt)

theorem eligible_antimono_witness:
  "(0 :: cshort) <s 8
   \<and> {t \<in> set ex_tasks. eligible 8 t} \<subseteq> {t \<in> set ex_tasks. eligible 0 t}
   \<and> ex_task False False 0 9000 \<in> {t \<in> set ex_tasks. eligible 0 t}
   \<and> ex_task False False 0 9000 \<notin> {t \<in> set ex_tasks. eligible 8 t}
   \<and> ex_task False False 8 500 \<in> {t \<in> set ex_tasks. eligible 8 t}"
proof -
  have h: "(0 :: cshort) <s 8" by code_simp
  have m: "ex_task False False 0 9000 \<in> set ex_tasks" "ex_task False False 8 500 \<in> set ex_tasks"
    by (simp_all add: ex_tasks_def)
  have e: "eligible 0 (ex_task False False 0 9000)" "\<not> eligible 8 (ex_task False False 0 9000)"
    "eligible 8 (ex_task False False 8 500)"
    by code_simp+
  from eligible_antimono [OF h, of ex_tasks] h m e show ?thesis by simp
qed

subsection \<open>The table loop finds the first entry that passes its test\<close>

lemma total_free_at_step:
  "total_free_at cfg prm vm i =
     bump_total_free cfg vm (lowmem_adj prm ! i) (total_free_before cfg prm vm i)"
  by (cases i) (simp_all add: total_free_before_def)

lemma tier_loop_find:
  "n - i = d \<Longrightarrow>
   min_score_adj (tier_loop cfg prm vm n i mf (total_free_before cfg prm vm i)) =
     (case find (entry_hit cfg prm vm) [i..<n] of
        None \<Rightarrow> word_of_int (OOM_SCORE_ADJ_MAX + 1) | Some j \<Rightarrow> lowmem_adj prm ! j)"
proof (induction d arbitrary: i mf)
  case 0
  then have "\<not> i < n" by simp
  then show ?case by (simp add: tier_loop.simps [of _ _ _ n i])
next
  case (Suc d)
  then have lt: "i < n" and d: "n - Suc i = d" by simp_all
  have upt: "[i..<n] = i # [Suc i..<n]" using lt by (simp add: upt_conv_Cons)
  have before: "total_free_before cfg prm vm (Suc i) = total_free_at cfg prm vm i"
    by (simp add: total_free_before_def)
  show ?case
  proof (cases "entry_hit cfg prm vm i")
    case True
    then show ?thesis
      using lt by (simp add: tier_loop.simps [of _ _ _ n i] upt entry_hit_def total_free_at_step Let_def)
  next
    case False
    from Suc.IH [OF d, of "lowmem_minfree prm ! i"] False lt show ?thesis
      by (simp add: tier_loop.simps [of _ _ _ n i] upt entry_hit_def Let_def before
            total_free_at_step [symmetric])
  qed
qed

lemma entry_hit_plain:
  "\<not> mstar_policy cfg \<Longrightarrow>
   entry_hit cfg prm vm i \<longleftrightarrow>
     (other_free vm - free_cma cfg vm) <s lowmem_minfree prm ! i
     \<and> other_file vm <s lowmem_minfree prm ! i"
  by (simp add: entry_hit_def below_minfree_def)

lemma entry_hit_policy:
  "mstar_policy cfg \<Longrightarrow>
   entry_hit cfg prm vm i \<longleftrightarrow> total_free_at cfg prm vm i <s lowmem_minfree prm ! i"
  by (simp add: entry_hit_def below_minfree_def)

lemma entry_hit_smax:
  "\<not> mstar_policy cfg \<Longrightarrow>
   entry_hit cfg prm vm i \<longleftrightarrow>
     smax (other_free vm - free_cma cfg vm) (other_file vm) <s lowmem_minfree prm ! i"
  by (auto simp: entry_hit_def below_minfree_def smax_def word_sless_alt)

lemma tier_lookup_find:
  "min_score_adj (tier_lookup cfg prm vm) =
     (case find (entry_hit cfg prm vm) [0..<nat (sint (array_size prm))] of
        None \<Rightarrow> word_of_int (OOM_SCORE_ADJ_MAX + 1) | Some j \<Rightarrow> lowmem_adj prm ! j)"
  using tier_loop_find [of "nat (sint (array_size prm))" 0 _ cfg prm vm 0]
  by (simp add: tier_lookup_def total_free_before_def)

lemma find_upt_first:
  "i < n \<Longrightarrow> P i \<Longrightarrow> \<forall>j<i. \<not> P j \<Longrightarrow> find P [0..<n] = Some i"
  by (auto simp: find_Some_iff intro!: exI [of _ i])

lemma find_upt_none: "\<forall>i<n. \<not> P i \<Longrightarrow> find P [0..<n] = None"
  by (simp add: find_None_iff)

lemma no_cutoff_sentinel: "no_cutoff (word_of_int (OOM_SCORE_ADJ_MAX + 1))"
  by (simp add: no_cutoff_def OOM_SCORE_ADJ_MAX_def)

lemma lowmem_scan_no_cutoff:
  "no_cutoff (min_score_adj (tier_lookup cfg prm vm)) \<Longrightarrow> lowmem_scan cfg prm vm jif s = (0, s)"
  by (simp add: lowmem_scan_def)

lemma all_less_4: "(\<forall>i<4. P i) \<longleftrightarrow> P 0 \<and> P (Suc 0) \<and> P 2 \<and> P (3::nat)"
proof -
  have "i < 4 \<longleftrightarrow> i = 0 \<or> i = Suc 0 \<or> i = 2 \<or> i = 3" for i :: nat by arith
  then show ?thesis by auto
qed

lemma tier_lookup_first_hit:
  assumes "i < nat (sint (array_size prm))" and "entry_hit cfg prm vm i"
    and "\<forall>j<i. \<not> entry_hit cfg prm vm j"
  shows "min_score_adj (tier_lookup cfg prm vm) = lowmem_adj prm ! i"
proof -
  from assms have "find (entry_hit cfg prm vm) [0..<nat (sint (array_size prm))] = Some i"
    by (intro find_upt_first)
  then show ?thesis by (simp add: tier_lookup_find)
qed

lemma tier_lookup_no_hit:
  assumes "\<forall>i < nat (sint (array_size prm)). \<not> entry_hit cfg prm vm i"
  shows "no_cutoff (min_score_adj (tier_lookup cfg prm vm))"
    and "lowmem_scan cfg prm vm jif s = (0, s)"
proof -
  from assms have "find (entry_hit cfg prm vm) [0..<nat (sint (array_size prm))] = None"
    by (intro find_upt_none)
  then show nc: "no_cutoff (min_score_adj (tier_lookup cfg prm vm))"
    by (simp only: tier_lookup_find option.case no_cutoff_sentinel)
  then show "lowmem_scan cfg prm vm jif s = (0, s)"
    by (rule lowmem_scan_no_cutoff)
qed

lemma total_free_at_closed:
  "mstar_policy cfg \<Longrightarrow>
   total_free_at cfg prm vm i =
     other_free vm - free_cma cfg vm + (other_file vm - active_file vm)
     + (if mma_enable cfg then total_ion_system_pages vm else 0)
     + of_nat (length (filter (\<lambda>j. lowmem_adj prm ! j = 0) [0..<Suc i])) * active_file vm"
proof (induction i)
  case 0
  then show ?case
    by (simp add: bump_total_free_def total_free_init_def Let_def)
next
  case (Suc i)
  have "[0..<Suc (Suc i)] = [0..<Suc i] @ [Suc i]" by simp
  then have "filter (\<lambda>j. lowmem_adj prm ! j = 0) [0..<Suc (Suc i)] =
     filter (\<lambda>j. lowmem_adj prm ! j = 0) [0..<Suc i]
     @ (if lowmem_adj prm ! Suc i = 0 then [Suc i] else [])"
    by (simp only: filter_append filter.simps)
  then have len: "length (filter (\<lambda>j. lowmem_adj prm ! j = 0) [0..<Suc (Suc i)]) =
     length (filter (\<lambda>j. lowmem_adj prm ! j = 0) [0..<Suc i])
     + (if lowmem_adj prm ! Suc i = 0 then 1 else 0)"
    by simp
  show ?case
    unfolding total_free_at.simps Suc.IH [OF Suc.prems] len
    using Suc.prems by (simp add: bump_total_free_def algebra_simps)
qed

lemma all_less_3: "(\<forall>i<3. P i) \<longleftrightarrow> P 0 \<and> P (Suc 0) \<and> P (2::nat)"
proof -
  have "i < 3 \<longleftrightarrow> i = 0 \<or> i = Suc 0 \<or> i = 2" for i :: nat by arith
  then show ?thesis by auto
qed

text \<open>
  C3, as stated: the lookup takes the first entry whose threshold strictly exceeds the
  effectively-free quantity, the free units plus the cache units, and gives no cutoff
  whenever the free units are at or above every threshold. Both parts fail. Without the
  MStar policy, 1000 free and 1000 cache pages make 2000, which the default table looks
  up as priority 1 (2048 is the first threshold above it); the code takes priority 0,
  since each of the two is below 1536. With the policy and the table (1, 1024), (8, 4096),
  5000 free pages are above both thresholds, and so is the sum 5500; the code still
  compares 500 (the free pages plus the cache less the active file pages) with 1024,
  takes priority 1 and kills a task.
\<close>

theorem first_match_on_free_counterexample:
  "spec_effectively_free cfg_plain (vm_of 1000 1000 0) = 2000
   \<and> spec_lookup (tier_table default_params) 2000 = 1
   \<and> min_score_adj (tier_lookup cfg_plain default_params (vm_of 1000 1000 0)) = 0
   \<and> tier_table late_params = [(1, 1024), (8, 4096)]
   \<and> other_free vm_mlocked = 5000
   \<and> spec_effectively_free cfg_mstar vm_mlocked = 5500
   \<and> min_score_adj (tier_lookup cfg_mstar late_params vm_mlocked) = 1
   \<and> lowmem_scan cfg_mstar late_params vm_mlocked 5 ex_state = (500, ex_state_killed)"
  by code_simp

text \<open>
  C3, amended. The lookup walks the entries by ascending index and takes the priority of
  the first entry that passes the test of the build. Without the MStar policy the test is
  that \<open>other_free - free_cma\<close> and \<open>other_file\<close> are both strictly below the entry's
  threshold; with the policy it is that the running \<open>total_free\<close> is strictly below it,
  where \<open>total_free\<close> at an entry is \<open>other_free - free_cma + other_file - active_file\<close>
  (plus the ION pages under MMA) plus \<open>active_file\<close> once for every priority-0 entry up
  to that one.
  When no entry among the first \<open>array_size\<close> passes, \<open>min_score_adj\<close> keeps the sentinel
  \<open>OOM_SCORE_ADJ_MAX + 1\<close> and the call returns 0 with the state untouched: so it is
  without the policy whenever \<open>other_free - free_cma\<close>, or \<open>other_file\<close>, is at or above
  every threshold, with the policy whenever the running \<open>total_free\<close> is at or above the
  threshold at every entry, and in both builds when the effective table is empty.
\<close>

theorem tier_lookup_first_passing:
  "(\<not> mstar_policy cfg \<longrightarrow>
      (\<forall>i < nat (sint (array_size prm)).
          ((other_free vm - free_cma cfg vm) <s lowmem_minfree prm ! i
            \<and> other_file vm <s lowmem_minfree prm ! i)
          \<and> (\<forall>j<i. \<not> ((other_free vm - free_cma cfg vm) <s lowmem_minfree prm ! j
                       \<and> other_file vm <s lowmem_minfree prm ! j))
          \<longrightarrow> min_score_adj (tier_lookup cfg prm vm) = lowmem_adj prm ! i)
      \<and> ((\<forall>i < nat (sint (array_size prm)).
             \<not> ((other_free vm - free_cma cfg vm) <s lowmem_minfree prm ! i
                 \<and> other_file vm <s lowmem_minfree prm ! i))
          \<longrightarrow> no_cutoff (min_score_adj (tier_lookup cfg prm vm))
              \<and> lowmem_scan cfg prm vm jif s = (0, s))
      \<and> ((\<forall>i < nat (sint (array_size prm)).
             lowmem_minfree prm ! i \<le>s other_free vm - free_cma cfg vm)
          \<longrightarrow> no_cutoff (min_score_adj (tier_lookup cfg prm vm))
              \<and> lowmem_scan cfg prm vm jif s = (0, s))
      \<and> ((\<forall>i < nat (sint (array_size prm)). lowmem_minfree prm ! i \<le>s other_file vm)
          \<longrightarrow> no_cutoff (min_score_adj (tier_lookup cfg prm vm))
              \<and> lowmem_scan cfg prm vm jif s = (0, s)))
   \<and> (mstar_policy cfg \<longrightarrow>
      (\<forall>i < nat (sint (array_size prm)).
          total_free_at cfg prm vm i <s lowmem_minfree prm ! i
          \<and> (\<forall>j<i. \<not> total_free_at cfg prm vm j <s lowmem_minfree prm ! j)
          \<longrightarrow> min_score_adj (tier_lookup cfg prm vm) = lowmem_adj prm ! i)
      \<and> ((\<forall>i < nat (sint (array_size prm)).
             lowmem_minfree prm ! i \<le>s total_free_at cfg prm vm i)
          \<longrightarrow> no_cutoff (min_score_adj (tier_lookup cfg prm vm))
              \<and> lowmem_scan cfg prm vm jif s = (0, s))
      \<and> (\<forall>i. total_free_at cfg prm vm i =
             other_free vm - free_cma cfg vm + (other_file vm - active_file vm)
             + (if mma_enable cfg then total_ion_system_pages vm else 0)
             + of_nat (length (filter (\<lambda>j. lowmem_adj prm ! j = 0) [0..<Suc i]))
               * active_file vm))
   \<and> (array_size prm \<le>s 0
        \<longrightarrow> no_cutoff (min_score_adj (tier_lookup cfg prm vm))
            \<and> lowmem_scan cfg prm vm jif s = (0, s))"
proof -
  let ?n = "nat (sint (array_size prm))"
  let ?goal = "no_cutoff (min_score_adj (tier_lookup cfg prm vm))
                 \<and> lowmem_scan cfg prm vm jif s = (0, s)"
  have none: "\<forall>i < ?n. \<not> entry_hit cfg prm vm i \<Longrightarrow> ?goal"
    using tier_lookup_no_hit(1) [of prm cfg vm] tier_lookup_no_hit(2) [of prm cfg vm jif s]
    by blast
  have plain: "\<not> mstar_policy cfg \<Longrightarrow>
      (\<forall>i < ?n.
          ((other_free vm - free_cma cfg vm) <s lowmem_minfree prm ! i
            \<and> other_file vm <s lowmem_minfree prm ! i)
          \<and> (\<forall>j<i. \<not> ((other_free vm - free_cma cfg vm) <s lowmem_minfree prm ! j
                       \<and> other_file vm <s lowmem_minfree prm ! j))
          \<longrightarrow> min_score_adj (tier_lookup cfg prm vm) = lowmem_adj prm ! i)
      \<and> ((\<forall>i < ?n.
             \<not> ((other_free vm - free_cma cfg vm) <s lowmem_minfree prm ! i
                 \<and> other_file vm <s lowmem_minfree prm ! i))
          \<longrightarrow> ?goal)
      \<and> ((\<forall>i < ?n. lowmem_minfree prm ! i \<le>s other_free vm - free_cma cfg vm) \<longrightarrow> ?goal)
      \<and> ((\<forall>i < ?n. lowmem_minfree prm ! i \<le>s other_file vm) \<longrightarrow> ?goal)"
  proof (intro conjI allI impI)
    fix i
    assume p: "\<not> mstar_policy cfg" and i: "i < ?n"
      and h: "((other_free vm - free_cma cfg vm) <s lowmem_minfree prm ! i
            \<and> other_file vm <s lowmem_minfree prm ! i)
          \<and> (\<forall>j<i. \<not> ((other_free vm - free_cma cfg vm) <s lowmem_minfree prm ! j
                       \<and> other_file vm <s lowmem_minfree prm ! j))"
    from p h have "entry_hit cfg prm vm i" "\<forall>j<i. \<not> entry_hit cfg prm vm j"
      by (simp_all add: entry_hit_plain)
    from tier_lookup_first_hit [OF i this]
    show "min_score_adj (tier_lookup cfg prm vm) = lowmem_adj prm ! i" .
  next
    assume p: "\<not> mstar_policy cfg"
      and h: "\<forall>i < ?n. \<not> ((other_free vm - free_cma cfg vm) <s lowmem_minfree prm ! i
                 \<and> other_file vm <s lowmem_minfree prm ! i)"
    then have "\<forall>i < ?n. \<not> entry_hit cfg prm vm i" by (simp add: entry_hit_plain)
    from none [OF this] show "no_cutoff (min_score_adj (tier_lookup cfg prm vm))"
      and "lowmem_scan cfg prm vm jif s = (0, s)" by simp_all
  next
    assume p: "\<not> mstar_policy cfg"
      and h: "\<forall>i < ?n. lowmem_minfree prm ! i \<le>s other_free vm - free_cma cfg vm"
    then have "\<forall>i < ?n. \<not> entry_hit cfg prm vm i"
      by (auto simp: entry_hit_plain word_sless_alt word_sle_eq)
    from none [OF this] show "no_cutoff (min_score_adj (tier_lookup cfg prm vm))"
      and "lowmem_scan cfg prm vm jif s = (0, s)" by simp_all
  next
    assume p: "\<not> mstar_policy cfg"
      and h: "\<forall>i < ?n. lowmem_minfree prm ! i \<le>s other_file vm"
    then have "\<forall>i < ?n. \<not> entry_hit cfg prm vm i"
      by (auto simp: entry_hit_plain word_sless_alt word_sle_eq)
    from none [OF this] show "no_cutoff (min_score_adj (tier_lookup cfg prm vm))"
      and "lowmem_scan cfg prm vm jif s = (0, s)" by simp_all
  qed
  have policy: "mstar_policy cfg \<Longrightarrow>
      (\<forall>i < ?n.
          total_free_at cfg prm vm i <s lowmem_minfree prm ! i
          \<and> (\<forall>j<i. \<not> total_free_at cfg prm vm j <s lowmem_minfree prm ! j)
          \<longrightarrow> min_score_adj (tier_lookup cfg prm vm) = lowmem_adj prm ! i)
      \<and> ((\<forall>i < ?n. lowmem_minfree prm ! i \<le>s total_free_at cfg prm vm i) \<longrightarrow> ?goal)
      \<and> (\<forall>i. total_free_at cfg prm vm i =
             other_free vm - free_cma cfg vm + (other_file vm - active_file vm)
             + (if mma_enable cfg then total_ion_system_pages vm else 0)
             + of_nat (length (filter (\<lambda>j. lowmem_adj prm ! j = 0) [0..<Suc i]))
               * active_file vm)"
  proof (intro conjI allI impI)
    fix i
    assume p: "mstar_policy cfg" and i: "i < ?n"
      and h: "total_free_at cfg prm vm i <s lowmem_minfree prm ! i
          \<and> (\<forall>j<i. \<not> total_free_at cfg prm vm j <s lowmem_minfree prm ! j)"
    from p h have "entry_hit cfg prm vm i" "\<forall>j<i. \<not> entry_hit cfg prm vm j"
      by (simp_all add: entry_hit_policy)
    from tier_lookup_first_hit [OF i this]
    show "min_score_adj (tier_lookup cfg prm vm) = lowmem_adj prm ! i" .
  next
    assume p: "mstar_policy cfg"
      and h: "\<forall>i < ?n. lowmem_minfree prm ! i \<le>s total_free_at cfg prm vm i"
    then have "\<forall>i < ?n. \<not> entry_hit cfg prm vm i"
      by (auto simp: entry_hit_policy word_sless_alt word_sle_eq)
    from none [OF this] show "no_cutoff (min_score_adj (tier_lookup cfg prm vm))"
      and "lowmem_scan cfg prm vm jif s = (0, s)" by simp_all
  next
    fix i
    assume p: "mstar_policy cfg"
    from total_free_at_closed [OF p]
    show "total_free_at cfg prm vm i =
             other_free vm - free_cma cfg vm + (other_file vm - active_file vm)
             + (if mma_enable cfg then total_ion_system_pages vm else 0)
             + of_nat (length (filter (\<lambda>j. lowmem_adj prm ! j = 0) [0..<Suc i]))
               * active_file vm" .
  qed
  have empty: "array_size prm \<le>s 0 \<Longrightarrow> ?goal"
  proof -
    assume "array_size prm \<le>s 0"
    then have "?n = 0" by (simp add: word_sle_eq)
    then have "\<forall>i < ?n. \<not> entry_hit cfg prm vm i" by simp
    from none [OF this] show ?goal .
  qed
  from plain policy empty show ?thesis by blast
qed

theorem tier_lookup_first_passing_witness:
  "\<not> mstar_policy cfg_plain
   \<and> other_free (vm_of 600 3000 0) - free_cma cfg_plain (vm_of 600 3000 0) = 600
   \<and> other_file (vm_of 600 3000 0) = 3000
   \<and> min_score_adj (tier_lookup cfg_plain default_params (vm_of 600 3000 0)) = 6
   \<and> lowmem_scan cfg_plain default_params (vm_of 20000 0 0) 7 ex_state = (0, ex_state)
   \<and> lowmem_scan cfg_plain default_params (vm_of 0 20000 0) 7 ex_state = (0, ex_state)
   \<and> mstar_policy cfg_mstar
   \<and> total_free_at cfg_mstar default_params (vm_of 1000 1000 700) 0 = 2000
   \<and> total_free_at cfg_mstar default_params (vm_of 1000 1000 700) 1 = 2000
   \<and> min_score_adj (tier_lookup cfg_mstar default_params (vm_of 1000 1000 700)) = 1
   \<and> lowmem_scan cfg_mstar default_params (vm_of 20000 0 0) 7 ex_state = (0, ex_state)
   \<and> array_size (default_params \<lparr> lowmem_minfree_size := 0 \<rparr>) \<le>s 0
   \<and> lowmem_scan cfg_mstar (default_params \<lparr> lowmem_minfree_size := 0 \<rparr>) (vm_of 0 0 0) 7 ex_state
       = (0, ex_state)"
proof -
  have n: "nat (sint (array_size default_params)) = 4" by code_simp
  have p: "\<not> mstar_policy cfg_plain" "mstar_policy cfg_mstar"
    by (simp_all add: cfg_plain_def cfg_mstar_def)
  let ?vm1 = "vm_of 600 3000 0"
  have q1: "other_free ?vm1 - free_cma cfg_plain ?vm1 = 600" "other_file ?vm1 = 3000"
    by code_simp+
  have a2: "(600 :: cint) <s lowmem_minfree default_params ! 2
            \<and> (3000 :: cint) <s lowmem_minfree default_params ! 2"
    by code_simp
  have a01: "\<not> ((600 :: cint) <s lowmem_minfree default_params ! 0
                \<and> (3000 :: cint) <s lowmem_minfree default_params ! 0)"
    "\<not> ((600 :: cint) <s lowmem_minfree default_params ! Suc 0
                \<and> (3000 :: cint) <s lowmem_minfree default_params ! Suc 0)"
    by code_simp+
  have "j < 2 \<longleftrightarrow> j = 0 \<or> j = Suc 0" for j :: nat by arith
  with a01 have a01': "\<forall>j<2. \<not> ((600 :: cint) <s lowmem_minfree default_params ! j
                \<and> (3000 :: cint) <s lowmem_minfree default_params ! j)"
    by auto
  have "(2::nat) < 4" by simp
  with tier_lookup_first_passing [of cfg_plain default_params ?vm1] p(1) a2 a01'
  have "min_score_adj (tier_lookup cfg_plain default_params ?vm1) = lowmem_adj default_params ! 2"
    unfolding n q1 by blast
  moreover have "lowmem_adj default_params ! 2 = 6" by code_simp
  ultimately have r1: "min_score_adj (tier_lookup cfg_plain default_params ?vm1) = 6" by simp
  let ?vm2 = "vm_of 20000 0 0"
  have b: "lowmem_minfree default_params ! 0 \<le>s other_free ?vm2 - free_cma cfg_plain ?vm2"
    "lowmem_minfree default_params ! Suc 0 \<le>s other_free ?vm2 - free_cma cfg_plain ?vm2"
    "lowmem_minfree default_params ! 2 \<le>s other_free ?vm2 - free_cma cfg_plain ?vm2"
    "lowmem_minfree default_params ! 3 \<le>s other_free ?vm2 - free_cma cfg_plain ?vm2"
    by code_simp+
  then have "\<forall>i < nat (sint (array_size default_params)).
               lowmem_minfree default_params ! i \<le>s other_free ?vm2 - free_cma cfg_plain ?vm2"
    unfolding n all_less_4 by simp
  with tier_lookup_first_passing [of cfg_plain default_params ?vm2 7 ex_state] p(1)
  have r2: "lowmem_scan cfg_plain default_params ?vm2 7 ex_state = (0, ex_state)"
    by blast
  let ?vm3 = "vm_of 0 20000 0"
  have c: "lowmem_minfree default_params ! 0 \<le>s other_file ?vm3"
    "lowmem_minfree default_params ! Suc 0 \<le>s other_file ?vm3"
    "lowmem_minfree default_params ! 2 \<le>s other_file ?vm3"
    "lowmem_minfree default_params ! 3 \<le>s other_file ?vm3"
    by code_simp+
  then have "\<forall>i < nat (sint (array_size default_params)).
               lowmem_minfree default_params ! i \<le>s other_file ?vm3"
    unfolding n all_less_4 by simp
  with tier_lookup_first_passing [of cfg_plain default_params ?vm3 7 ex_state] p(1)
  have r3: "lowmem_scan cfg_plain default_params ?vm3 7 ex_state = (0, ex_state)"
    by blast
  let ?vm4 = "vm_of 1000 1000 700"
  have t: "total_free_at cfg_mstar default_params ?vm4 0 = 2000"
    "total_free_at cfg_mstar default_params ?vm4 1 = 2000"
    by code_simp+
  have d1: "total_free_at cfg_mstar default_params ?vm4 1 <s lowmem_minfree default_params ! 1"
    by code_simp
  have d0: "\<not> total_free_at cfg_mstar default_params ?vm4 0 <s lowmem_minfree default_params ! 0"
    by code_simp
  then have d0': "\<forall>j<1. \<not> total_free_at cfg_mstar default_params ?vm4 j
                          <s lowmem_minfree default_params ! j"
    by simp
  have "(1::nat) < nat (sint (array_size default_params))" by (simp add: n)
  with tier_lookup_first_passing [of cfg_mstar default_params ?vm4] p(2) d1 d0'
  have "min_score_adj (tier_lookup cfg_mstar default_params ?vm4) = lowmem_adj default_params ! 1"
    by blast
  moreover have "lowmem_adj default_params ! 1 = 1" by code_simp
  ultimately have r4: "min_score_adj (tier_lookup cfg_mstar default_params ?vm4) = 1" by simp
  have e: "lowmem_minfree default_params ! 0 \<le>s total_free_at cfg_mstar default_params ?vm2 0"
    "lowmem_minfree default_params ! Suc 0 \<le>s total_free_at cfg_mstar default_params ?vm2 (Suc 0)"
    "lowmem_minfree default_params ! 2 \<le>s total_free_at cfg_mstar default_params ?vm2 2"
    "lowmem_minfree default_params ! 3 \<le>s total_free_at cfg_mstar default_params ?vm2 3"
    by code_simp+
  then have "\<forall>i < nat (sint (array_size default_params)).
               lowmem_minfree default_params ! i \<le>s total_free_at cfg_mstar default_params ?vm2 i"
    unfolding n all_less_4 by simp
  with tier_lookup_first_passing [of cfg_mstar default_params ?vm2 7 ex_state] p(2)
  have r5: "lowmem_scan cfg_mstar default_params ?vm2 7 ex_state = (0, ex_state)"
    by blast
  have f: "array_size (default_params \<lparr> lowmem_minfree_size := 0 \<rparr>) \<le>s 0" by code_simp
  with tier_lookup_first_passing [of cfg_mstar "default_params \<lparr> lowmem_minfree_size := 0 \<rparr>"
          "vm_of 0 0 0" 7 ex_state]
  have r6: "lowmem_scan cfg_mstar (default_params \<lparr> lowmem_minfree_size := 0 \<rparr>) (vm_of 0 0 0) 7
              ex_state = (0, ex_state)"
    by blast
  from p q1 r1 r2 r3 t r4 r5 f r6 show ?thesis by blast
qed

subsection \<open>How many entries the lookup reads\<close>

lemma tier_loop_cong:
  "n - i = d \<Longrightarrow>
   \<forall>j<n. lowmem_adj prm' ! j = lowmem_adj prm ! j \<and> lowmem_minfree prm' ! j = lowmem_minfree prm ! j \<Longrightarrow>
   tier_loop cfg prm' vm n i mf tf = tier_loop cfg prm vm n i mf tf"
proof (induction d arbitrary: i mf tf)
  case 0
  then have "\<not> i < n" by simp
  then show ?case by (simp add: tier_loop.simps [of _ _ _ n i])
next
  case (Suc d)
  then have lt: "i < n" and d: "n - Suc i = d" by simp_all
  from Suc.prems(2) lt have eq: "lowmem_adj prm' ! i = lowmem_adj prm ! i"
    "lowmem_minfree prm' ! i = lowmem_minfree prm ! i" by simp_all
  show ?case
    using lt Suc.IH [OF d Suc.prems(2)]
    by (simp add: tier_loop.simps [of _ _ _ n i] eq Let_def)
qed

lemma array_size_min:
  "sint (array_size prm) =
     min 6 (min (sint (lowmem_adj_size prm)) (sint (lowmem_minfree_size prm)))"
  by (simp add: array_size_def Let_def word_sless_alt min_def)

lemma length_tier_table:
  assumes "length (lowmem_adj prm) = 6" and "length (lowmem_minfree prm) = 6"
  shows "length (tier_table prm) = nat (sint (array_size prm))"
proof -
  have "nat (sint (array_size prm)) \<le> 6" using array_size_min [of prm] by simp
  with assms show ?thesis by (simp add: tier_table_def)
qed

text \<open>
  C4. The table a lookup works on has as many entries as the minimum of the configured
  number of priorities, the configured number of thresholds and the capacity 6: that
  minimum is the bound of the loop. Every entry below the bound is considered: when it
  is the first that passes the test, its priority is the result. No entry at or beyond
  the bound is: when no entry below the bound passes there is no cutoff, and the result
  is the same for any two parameter sets that agree below the bound. With six priorities
  and three thresholds the entries considered are the first three.
\<close>

theorem tier_table_length:
  "sint (array_size prm) =
     min 6 (min (sint (lowmem_adj_size prm)) (sint (lowmem_minfree_size prm)))
   \<and> (length (lowmem_adj prm) = 6 \<and> length (lowmem_minfree prm) = 6 \<longrightarrow>
        length (tier_table prm) =
          nat (min 6 (min (sint (lowmem_adj_size prm)) (sint (lowmem_minfree_size prm)))))
   \<and> (\<forall>i < nat (min 6 (min (sint (lowmem_adj_size prm)) (sint (lowmem_minfree_size prm)))).
        entry_hit cfg prm vm i \<and> (\<forall>j<i. \<not> entry_hit cfg prm vm j)
        \<longrightarrow> min_score_adj (tier_lookup cfg prm vm) = lowmem_adj prm ! i)
   \<and> ((\<forall>i < nat (min 6 (min (sint (lowmem_adj_size prm)) (sint (lowmem_minfree_size prm)))).
          \<not> entry_hit cfg prm vm i)
        \<longrightarrow> no_cutoff (min_score_adj (tier_lookup cfg prm vm)))
   \<and> (lowmem_adj_size prm' = lowmem_adj_size prm
        \<and> lowmem_minfree_size prm' = lowmem_minfree_size prm
        \<and> take (nat (sint (array_size prm))) (lowmem_adj prm')
            = take (nat (sint (array_size prm))) (lowmem_adj prm)
        \<and> take (nat (sint (array_size prm))) (lowmem_minfree prm')
            = take (nat (sint (array_size prm))) (lowmem_minfree prm)
        \<longrightarrow> tier_lookup cfg prm' vm = tier_lookup cfg prm vm)
   \<and> (lowmem_adj_size prm = 6 \<and> lowmem_minfree_size prm = 3
        \<longrightarrow> nat (sint (array_size prm)) = 3)"
proof -
  let ?n = "nat (sint (array_size prm))"
  let ?m = "nat (min 6 (min (sint (lowmem_adj_size prm)) (sint (lowmem_minfree_size prm))))"
  have nm: "?n = ?m" by (simp only: array_size_min)
  have c1: "sint (array_size prm) =
     min 6 (min (sint (lowmem_adj_size prm)) (sint (lowmem_minfree_size prm)))"
    by (rule array_size_min)
  have c2: "length (lowmem_adj prm) = 6 \<and> length (lowmem_minfree prm) = 6 \<longrightarrow>
        length (tier_table prm) = ?m"
    using length_tier_table [of prm] nm by simp
  have c3: "\<forall>i < ?m. entry_hit cfg prm vm i \<and> (\<forall>j<i. \<not> entry_hit cfg prm vm j)
        \<longrightarrow> min_score_adj (tier_lookup cfg prm vm) = lowmem_adj prm ! i"
    using tier_lookup_first_hit [of _ prm cfg vm] unfolding nm by blast
  have c4: "(\<forall>i < ?m. \<not> entry_hit cfg prm vm i)
        \<longrightarrow> no_cutoff (min_score_adj (tier_lookup cfg prm vm))"
    using tier_lookup_no_hit(1) [of prm cfg vm] unfolding nm by blast
  have c5: "lowmem_adj_size prm' = lowmem_adj_size prm
        \<and> lowmem_minfree_size prm' = lowmem_minfree_size prm
        \<and> take ?n (lowmem_adj prm') = take ?n (lowmem_adj prm)
        \<and> take ?n (lowmem_minfree prm') = take ?n (lowmem_minfree prm)
        \<longrightarrow> tier_lookup cfg prm' vm = tier_lookup cfg prm vm"
  proof
    assume a: "lowmem_adj_size prm' = lowmem_adj_size prm
        \<and> lowmem_minfree_size prm' = lowmem_minfree_size prm
        \<and> take ?n (lowmem_adj prm') = take ?n (lowmem_adj prm)
        \<and> take ?n (lowmem_minfree prm') = take ?n (lowmem_minfree prm)"
    then have sz: "lowmem_adj_size prm' = lowmem_adj_size prm"
      "lowmem_minfree_size prm' = lowmem_minfree_size prm" by simp_all
    have n: "array_size prm' = array_size prm" by (simp add: array_size_def sz Let_def)
    have "lowmem_adj prm' ! j = lowmem_adj prm ! j
            \<and> lowmem_minfree prm' ! j = lowmem_minfree prm ! j"
      if "j < ?n" for j
    proof -
      have "take ?n (lowmem_adj prm') ! j = take ?n (lowmem_adj prm) ! j"
        "take ?n (lowmem_minfree prm') ! j = take ?n (lowmem_minfree prm) ! j"
        using a by simp_all
      with that show ?thesis by simp
    qed
    then have "\<forall>j<?n. lowmem_adj prm' ! j = lowmem_adj prm ! j
                 \<and> lowmem_minfree prm' ! j = lowmem_minfree prm ! j" by blast
    from tier_loop_cong [OF refl this] show "tier_lookup cfg prm' vm = tier_lookup cfg prm vm"
      by (simp add: tier_lookup_def n)
  qed
  have c6: "lowmem_adj_size prm = 6 \<and> lowmem_minfree_size prm = 3 \<longrightarrow> ?n = 3"
    by (simp add: array_size_def Let_def word_sless_alt)
  from c1 c2 c3 c4 c5 c6 show ?thesis by blast
qed

theorem tier_table_length_witness:
  "sint (array_size short_params) = 3
   \<and> length (tier_table short_params) = 3
   \<and> entry_hit cfg_plain short_params (vm_of 3000 0 0) 2
   \<and> min_score_adj (tier_lookup cfg_plain short_params (vm_of 3000 0 0)) = 2
   \<and> entry_hit cfg_plain short_params' (vm_of 5000 0 0) 3
   \<and> no_cutoff (min_score_adj (tier_lookup cfg_plain short_params' (vm_of 5000 0 0)))
   \<and> tier_lookup cfg_plain short_params' (vm_of 3000 0 0)
       = tier_lookup cfg_plain short_params (vm_of 3000 0 0)
   \<and> lowmem_adj_size short_params = 6 \<and> lowmem_minfree_size short_params = 3
   \<and> nat (sint (array_size short_params)) = 3"
proof -
  let ?vm = "vm_of 3000 0 0"
  let ?vm5 = "vm_of 5000 0 0"
  have m: "min 6 (min (sint (lowmem_adj_size short_params)) (sint (lowmem_minfree_size short_params))) = 3"
    "min 6 (min (sint (lowmem_adj_size short_params')) (sint (lowmem_minfree_size short_params'))) = 3"
    by code_simp+
  have n: "nat (sint (array_size short_params)) = 3" by code_simp
  have l: "length (lowmem_adj short_params) = 6 \<and> length (lowmem_minfree short_params) = 6"
    by (simp add: short_params_def)
  have sz: "lowmem_adj_size short_params = 6" "lowmem_minfree_size short_params = 3"
    by (simp_all add: short_params_def)
  note T = tier_table_length [of short_params cfg_plain ?vm short_params']
  from T m(1) have r1: "sint (array_size short_params) = 3" by simp
  from T l m(1) have r2: "length (tier_table short_params) = 3" by simp
  have h2: "entry_hit cfg_plain short_params ?vm 2" by code_simp
  have h01: "\<not> entry_hit cfg_plain short_params ?vm 0" "\<not> entry_hit cfg_plain short_params ?vm (Suc 0)"
    by code_simp+
  have "j < 2 \<longleftrightarrow> j = 0 \<or> j = Suc 0" for j :: nat by arith
  with h01 have h01': "\<forall>j<2. \<not> entry_hit cfg_plain short_params ?vm j" by auto
  have "(2::nat) < nat 3" by simp
  with T h2 h01' have "min_score_adj (tier_lookup cfg_plain short_params ?vm) = lowmem_adj short_params ! 2"
    unfolding m by blast
  moreover have "lowmem_adj short_params ! 2 = 2" by code_simp
  ultimately have r3: "min_score_adj (tier_lookup cfg_plain short_params ?vm) = 2" by simp
  have h3: "entry_hit cfg_plain short_params' ?vm5 3" by code_simp
  have g: "\<not> entry_hit cfg_plain short_params' ?vm5 0" "\<not> entry_hit cfg_plain short_params' ?vm5 (Suc 0)"
    "\<not> entry_hit cfg_plain short_params' ?vm5 2"
    by code_simp+
  have "nat 3 = (3::nat)" by simp
  with g have g': "\<forall>i < nat 3. \<not> entry_hit cfg_plain short_params' ?vm5 i"
    by (simp add: all_less_3)
  with tier_table_length [of short_params' cfg_plain ?vm5]
  have r4: "no_cutoff (min_score_adj (tier_lookup cfg_plain short_params' ?vm5))"
    unfolding m by blast
  have same: "lowmem_adj_size short_params' = lowmem_adj_size short_params
        \<and> lowmem_minfree_size short_params' = lowmem_minfree_size short_params
        \<and> take (nat (sint (array_size short_params))) (lowmem_adj short_params')
            = take (nat (sint (array_size short_params))) (lowmem_adj short_params)
        \<and> take (nat (sint (array_size short_params))) (lowmem_minfree short_params')
            = take (nat (sint (array_size short_params))) (lowmem_minfree short_params)"
    by code_simp
  with T have r5: "tier_lookup cfg_plain short_params' ?vm = tier_lookup cfg_plain short_params ?vm"
    by blast
  from T sz have r6: "nat (sint (array_size short_params)) = 3" by blast
  from r1 r2 h2 r3 h3 r4 r5 sz r6 show ?thesis by blast
qed

subsection \<open>Which quantity the thresholds are compared with\<close>

lemma find_spec_lookup:
  "n - i = d \<Longrightarrow> n \<le> length adj \<Longrightarrow> n \<le> length mf \<Longrightarrow>
   (case find (\<lambda>j. q <s mf ! j) [i..<n] of
      None \<Rightarrow> word_of_int (OOM_SCORE_ADJ_MAX + 1) | Some j \<Rightarrow> adj ! j)
   = spec_lookup (drop i (take n (zip adj mf))) q"
proof (induction d arbitrary: i)
  case 0
  then have "n \<le> i" by simp
  then show ?case by simp
next
  case (Suc d)
  then have lt: "i < n" and d: "n - Suc i = d" by simp_all
  have len: "i < length (take n (zip adj mf))" using lt Suc.prems by simp
  have "drop i (take n (zip adj mf)) = take n (zip adj mf) ! i # drop (Suc i) (take n (zip adj mf))"
    by (rule Cons_nth_drop_Suc [OF len, symmetric])
  also have "take n (zip adj mf) ! i = (adj ! i, mf ! i)"
    using lt Suc.prems by simp
  finally have dr: "drop i (take n (zip adj mf)) = (adj ! i, mf ! i) # drop (Suc i) (take n (zip adj mf))" .
  have upt: "[i..<n] = i # [Suc i..<n]" using lt by (simp add: upt_conv_Cons)
  show ?case
    using Suc.IH [OF d Suc.prems(2,3)] by (simp add: dr upt)
qed

lemma tier_lookup_spec_lookup:
  assumes len: "length (lowmem_adj prm) = 6" "length (lowmem_minfree prm) = 6"
    and hit: "\<forall>i < nat (sint (array_size prm)). entry_hit cfg prm vm i \<longleftrightarrow> q <s lowmem_minfree prm ! i"
  shows "min_score_adj (tier_lookup cfg prm vm) = spec_lookup (tier_table prm) q"
proof -
  let ?n = "nat (sint (array_size prm))"
  have n6: "?n \<le> 6" using array_size_min [of prm] by simp
  have "find (entry_hit cfg prm vm) [0..<?n] = find (\<lambda>j. q <s lowmem_minfree prm ! j) [0..<?n]"
    using hit by (intro find_cong) simp_all
  then have "min_score_adj (tier_lookup cfg prm vm) =
     (case find (\<lambda>j. q <s lowmem_minfree prm ! j) [0..<?n] of
        None \<Rightarrow> word_of_int (OOM_SCORE_ADJ_MAX + 1) | Some j \<Rightarrow> lowmem_adj prm ! j)"
    by (simp only: tier_lookup_find)
  also have "\<dots> = spec_lookup (drop 0 (take ?n (zip (lowmem_adj prm) (lowmem_minfree prm)))) q"
    using n6 len by (intro find_spec_lookup [OF refl]) simp_all
  finally show ?thesis by (simp add: tier_table_def)
qed

lemma total_free_at_first_zero:
  assumes pol: "mstar_policy cfg"
    and z: "\<forall>i<n. lowmem_adj prm ! i = 0 \<longleftrightarrow> i = 0"
  shows "i < n \<Longrightarrow> total_free_at cfg prm vm i =
     spec_effectively_free cfg vm + (if mma_enable cfg then total_ion_system_pages vm else 0)"
proof (induction i)
  case 0
  with z have "lowmem_adj prm ! 0 = 0" by simp
  then show ?case
    using pol by (simp add: bump_total_free_def total_free_init_def spec_effectively_free_def Let_def)
next
  case (Suc i)
  with z have "lowmem_adj prm ! Suc i \<noteq> 0" by simp
  with Suc show ?case by (simp add: bump_total_free_def)
qed

text \<open>
  C5, as stated: the cutoff is the lookup of the single sum of the free and the cache
  quantity. It fails in both configurations. Without the MStar policy, with 600 free and
  600 cache pages against the thresholds 1024 and 4096, the code selects priority 0
  (each quantity is below 1024) where the sum, 1200, selects priority 8. With the policy,
  a table whose first priority is not 0 is first compared with the sum less the active
  file pages.
\<close>

theorem single_quantity_counterexample:
  "min_score_adj (tier_lookup cfg_plain scenario_params (vm_of 600 600 0)) = 0
   \<and> spec_lookup (tier_table scenario_params) (spec_effectively_free cfg_plain (vm_of 600 600 0)) = 8
   \<and> min_score_adj (tier_lookup cfg_mstar negative_params (vm_of 100 1000 800)) = - 500
   \<and> spec_lookup (tier_table negative_params) (spec_effectively_free cfg_mstar (vm_of 100 1000 800)) = 8"
  by code_simp

text \<open>
  C5, amended. The evaluator takes the free and the cache quantity separately. Without
  the MStar policy it does not add them: the cutoff is the lookup of the larger of
  \<open>other_free - free_cma\<close> and \<open>other_file\<close>, an entry being taken only when each of the
  two is below its threshold. With the policy the thresholds are compared with the running
  \<open>total_free\<close>, which starts at \<open>other_free - free_cma + other_file - active_file\<close>
  (plus the ION pages under MMA) and grows by \<open>active_file\<close> at each priority-0 entry;
  when the first entry is the only priority-0 entry read, this is for every entry the
  single sum \<open>other_free - free_cma + other_file\<close> (plus the ION pages).
\<close>

theorem tier_lookup_combination:
  assumes "length (lowmem_adj prm) = 6" and "length (lowmem_minfree prm) = 6"
  shows
    "(\<not> mstar_policy cfg \<longrightarrow>
        min_score_adj (tier_lookup cfg prm vm)
          = spec_lookup (tier_table prm) (smax (other_free vm - free_cma cfg vm) (other_file vm)))
     \<and> (mstar_policy cfg
          \<and> (\<forall>i < nat (sint (array_size prm)). lowmem_adj prm ! i = 0 \<longleftrightarrow> i = 0) \<longrightarrow>
        min_score_adj (tier_lookup cfg prm vm)
          = spec_lookup (tier_table prm)
              (spec_effectively_free cfg vm
                + (if mma_enable cfg then total_ion_system_pages vm else 0)))
     \<and> (mstar_policy cfg \<longrightarrow>
        min_score_adj (tier_lookup cfg prm vm)
          = (case find (\<lambda>i. total_free_at cfg prm vm i <s lowmem_minfree prm ! i)
                    [0..<nat (sint (array_size prm))] of
               None \<Rightarrow> word_of_int (OOM_SCORE_ADJ_MAX + 1)
             | Some i \<Rightarrow> lowmem_adj prm ! i))"
proof (intro conjI; rule impI)
  assume "\<not> mstar_policy cfg"
  then have "\<forall>i < nat (sint (array_size prm)). entry_hit cfg prm vm i \<longleftrightarrow>
       smax (other_free vm - free_cma cfg vm) (other_file vm) <s lowmem_minfree prm ! i"
    by (simp add: entry_hit_smax)
  from tier_lookup_spec_lookup [OF assms this]
  show "min_score_adj (tier_lookup cfg prm vm)
          = spec_lookup (tier_table prm) (smax (other_free vm - free_cma cfg vm) (other_file vm))" .
next
  let ?q = "spec_effectively_free cfg vm
                + (if mma_enable cfg then total_ion_system_pages vm else 0)"
  assume a: "mstar_policy cfg
          \<and> (\<forall>i < nat (sint (array_size prm)). lowmem_adj prm ! i = 0 \<longleftrightarrow> i = 0)"
  then have "\<forall>i < nat (sint (array_size prm)). entry_hit cfg prm vm i \<longleftrightarrow>
       ?q <s lowmem_minfree prm ! i"
    using total_free_at_first_zero [of cfg "nat (sint (array_size prm))" prm _ vm]
    by (simp add: entry_hit_def below_minfree_def)
  from tier_lookup_spec_lookup [OF assms this]
  show "min_score_adj (tier_lookup cfg prm vm) = spec_lookup (tier_table prm) ?q" .
next
  assume "mstar_policy cfg"
  then have "entry_hit cfg prm vm = (\<lambda>i. total_free_at cfg prm vm i <s lowmem_minfree prm ! i)"
    by (simp add: entry_hit_def below_minfree_def fun_eq_iff)
  then show "min_score_adj (tier_lookup cfg prm vm)
          = (case find (\<lambda>i. total_free_at cfg prm vm i <s lowmem_minfree prm ! i)
                    [0..<nat (sint (array_size prm))] of
               None \<Rightarrow> word_of_int (OOM_SCORE_ADJ_MAX + 1)
             | Some i \<Rightarrow> lowmem_adj prm ! i)"
    by (simp only: tier_lookup_find)
qed

theorem tier_lookup_combination_witness:
  "length (lowmem_adj scenario_params) = 6 \<and> length (lowmem_minfree scenario_params) = 6
   \<and> \<not> mstar_policy cfg_plain
   \<and> min_score_adj (tier_lookup cfg_plain scenario_params (vm_of 600 600 0))
       = spec_lookup (tier_table scenario_params) (smax 600 600)
   \<and> min_score_adj (tier_lookup cfg_plain scenario_params (vm_of 600 600 0)) = 0
   \<and> mstar_policy cfg_mstar
   \<and> min_score_adj (tier_lookup cfg_mstar default_params (vm_of 1000 2000 700))
       = spec_lookup (tier_table default_params) 3000
   \<and> min_score_adj (tier_lookup cfg_mstar default_params (vm_of 1000 2000 700)) = 6
   \<and> min_score_adj (tier_lookup cfg_mstar negative_params (vm_of 100 1000 800)) = - 500"
proof -
  have l1: "length (lowmem_adj scenario_params) = 6" "length (lowmem_minfree scenario_params) = 6"
    by (simp_all add: scenario_params_def)
  have l2: "length (lowmem_adj default_params) = 6" "length (lowmem_minfree default_params) = 6"
    by (simp_all add: default_params_def)
  have l3: "length (lowmem_adj negative_params) = 6" "length (lowmem_minfree negative_params) = 6"
    by (simp_all add: negative_params_def)
  have p: "\<not> mstar_policy cfg_plain" "mstar_policy cfg_mstar" "\<not> mma_enable cfg_mstar"
    by (simp_all add: cfg_plain_def cfg_mstar_def)
  have q1: "smax (other_free (vm_of 600 600 0) - free_cma cfg_plain (vm_of 600 600 0))
              (other_file (vm_of 600 600 0)) = smax 600 600"
    by code_simp
  have v1: "spec_lookup (tier_table scenario_params) (smax 600 600) = 0" by code_simp
  from tier_lookup_combination [OF l1, of cfg_plain "vm_of 600 600 0"] p(1)
  have r1: "min_score_adj (tier_lookup cfg_plain scenario_params (vm_of 600 600 0))
       = spec_lookup (tier_table scenario_params) (smax 600 600)"
    unfolding q1 by blast
  have n: "nat (sint (array_size default_params)) = 4" by code_simp
  have z: "(lowmem_adj default_params ! 0 = 0) = ((0::nat) = 0)"
    "(lowmem_adj default_params ! Suc 0 = 0) = (Suc 0 = 0)"
    "(lowmem_adj default_params ! 2 = 0) = ((2::nat) = 0)"
    "(lowmem_adj default_params ! 3 = 0) = ((3::nat) = 0)"
    by code_simp+
  then have only0: "\<forall>i < nat (sint (array_size default_params)).
                      lowmem_adj default_params ! i = 0 \<longleftrightarrow> i = 0"
    unfolding n all_less_4 by blast
  have q2: "spec_effectively_free cfg_mstar (vm_of 1000 2000 700)
              + (if mma_enable cfg_mstar then total_ion_system_pages (vm_of 1000 2000 700) else 0)
            = 3000"
    by code_simp
  have v2: "spec_lookup (tier_table default_params) 3000 = 6" by code_simp
  from tier_lookup_combination [OF l2, of cfg_mstar "vm_of 1000 2000 700"] p(2) only0
  have r2: "min_score_adj (tier_lookup cfg_mstar default_params (vm_of 1000 2000 700))
       = spec_lookup (tier_table default_params) 3000"
    unfolding q2 by blast
  have v3: "(case find (\<lambda>i. total_free_at cfg_mstar negative_params (vm_of 100 1000 800) i
                          <s lowmem_minfree negative_params ! i)
                    [0..<nat (sint (array_size negative_params))] of
               None \<Rightarrow> word_of_int (OOM_SCORE_ADJ_MAX + 1)
             | Some i \<Rightarrow> lowmem_adj negative_params ! i) = - 500"
    by code_simp
  from tier_lookup_combination [OF l3, of cfg_mstar "vm_of 100 1000 800"] p(2)
  have r3: "min_score_adj (tier_lookup cfg_mstar negative_params (vm_of 100 1000 800)) = - 500"
    unfolding v3 by blast
  from l1 p r1 r2 r3 v1 v2 show ?thesis by simp
qed

subsection \<open>The outcomes of one call\<close>

lemma lowmem_scan_cases:
  "lowmem_scan cfg prm vm jif s = (r, s') \<Longrightarrow>
     (r = 0 \<and> s' = s)
     \<or> (\<exists>k sz adj.
           scan_tasks jif (lowmem_deathpending_timeout s) (min_score_adj (tier_lookup cfg prm vm))
             (tasks s) 0 (None, 0, min_score_adj (tier_lookup cfg prm vm)) = Scanned (Some k, sz, adj)
           \<and> \<not> no_cutoff (min_score_adj (tier_lookup cfg prm vm))
           \<and> r = scast sz \<and> s' = dispatch cfg jif k s)"
  by (auto simp: lowmem_scan_def Let_def split: if_splits scan_result.splits prod.splits option.splits)

lemma scan_tasks_flag_irrelevant:
  "\<not> time_before_eq jif tmo \<Longrightarrow>
   scan_tasks jif tmo c (map (\<lambda>t. t\<lparr>lmk_waiting := w\<rparr>) ts) i sel = scan_tasks jif tmo c ts i sel"
proof (induction ts arbitrary: i sel)
  case Nil
  then show ?case by simp
next
  case (Cons t ts)
  obtain s sz adj where "sel = (s, sz, adj)" by (cases sel)
  with Cons show ?case by auto
qed

lemma scan_tasks_not_deferred:
  "\<not> time_before_eq jif tmo \<Longrightarrow> scan_tasks jif tmo c ts i sel \<noteq> Deferred"
proof (induction ts arbitrary: i sel)
  case Nil
  then show ?case by simp
next
  case (Cons t ts)
  obtain s sz adj where "sel = (s, sz, adj)" by (cases sel)
  with Cons show ?case by simp
qed

lemma scan_tasks_deferred:
  "time_before_eq jif tmo \<Longrightarrow> t \<in> set ts \<Longrightarrow> \<not> pf_kthread t \<Longrightarrow> has_mm t \<Longrightarrow> lmk_waiting t \<Longrightarrow>
   scan_tasks jif tmo c ts i sel = Deferred"
proof (induction ts arbitrary: i sel)
  case Nil
  then show ?case by simp
next
  case (Cons u us)
  obtain s sz adj where "sel = (s, sz, adj)" by (cases sel)
  with Cons show ?case by auto
qed

lemma scan_tasks_none_eligible:
  "\<forall>t\<in>set ts. \<not> eligible c t \<Longrightarrow> scan_tasks jif tmo c ts i (None, sz, adj) = Scanned sel \<Longrightarrow>
   sel = (None, sz, adj)"
proof (induction ts arbitrary: i)
  case Nil
  then show ?case by simp
next
  case (Cons t ts)
  from Cons.prems(1) have "\<not> eligible c t" by simp
  with Cons show ?case by (auto simp: eligible_def split: if_splits)
qed

lemma lowmem_scan_none_eligible:
  assumes "\<forall>t\<in>set (tasks s). \<not> eligible (min_score_adj (tier_lookup cfg prm vm)) t"
  shows "lowmem_scan cfg prm vm jif s = (0, s)"
proof -
  let ?c = "min_score_adj (tier_lookup cfg prm vm)"
  have "sel = (None, 0, ?c)"
    if "scan_tasks jif (lowmem_deathpending_timeout s) ?c (tasks s) 0 (None, 0, ?c) = Scanned sel"
    for sel
    using scan_tasks_none_eligible [OF assms that] .
  then show ?thesis
    by (auto simp: lowmem_scan_def Let_def split: scan_result.splits option.splits)
qed

lemma lowmem_scan_deferred:
  assumes "time_before_eq jif (lowmem_deathpending_timeout s)"
    and "t \<in> set (tasks s)" "\<not> pf_kthread t" "has_mm t" "lmk_waiting t"
  shows "lowmem_scan cfg prm vm jif s = (0, s)"
  using scan_tasks_deferred [OF assms]
  by (simp add: lowmem_scan_def Let_def)

lemma dispatch_fields:
  "sigkill_sent (dispatch cfg jif k s) = sigkill_sent s @ [k]"
  "lowmem_deathpending_timeout (dispatch cfg jif k s) = jif + HZ cfg"
  by (simp_all add: dispatch_def)

text \<open>
  C6, as stated: after a dispatch at time \<open>now\<close>, every call not past the deadline
  \<open>now + HZ\<close> that has a task still marked as waiting in its process list sends no signal
  and returns 0. It fails when the marked task has given up its address space: the loop
  body skips a task for which \<open>find_lock_task_mm\<close> finds nothing before it reads the
  flag. After the call at time 5 has killed the task at position 2, that task is still
  listed and still marked at time 50, inside the deadline 105, but without an address
  space; the call at time 50 sends a second SIGKILL, to the task at position 3, and
  returns 500.
\<close>

theorem marked_task_without_mm_counterexample:
  "lowmem_scan cfg_plain default_params (vm_of 2000 0 0) 5 ex_state = (500, ex_state_killed)
   \<and> lowmem_deathpending_timeout ex_state_killed = 5 + HZ cfg_plain
   \<and> lowmem_deathpending_timeout ex_state_exiting = lowmem_deathpending_timeout ex_state_killed
   \<and> time_before_eq 50 (5 + HZ cfg_plain)
   \<and> lmk_waiting (tasks ex_state_exiting ! 2)
   \<and> \<not> has_mm (tasks ex_state_exiting ! 2)
   \<and> fst (lowmem_scan cfg_plain default_params (vm_of 2000 0 0) 50 ex_state_exiting) = 500
   \<and> sigkill_sent (snd (lowmem_scan cfg_plain default_params (vm_of 2000 0 0) 50 ex_state_exiting))
       = [2, 3]"
  by code_simp

text \<open>
  C6, amended. When a call at time \<open>now\<close> has dispatched a kill, the deadline is
  \<open>now + HZ\<close>; and every call at a time \<open>now'\<close> not past that deadline, on a state that
  still carries this deadline and whose process list holds a task marked as waiting that
  is not a kernel thread and still has an address space, sends no signal, changes nothing
  and returns 0, whatever the table and the memory readings are.
\<close>

theorem cooldown_defers:
  assumes "lowmem_scan cfg prm vm now s0 = (r, s1)"
    and "sigkill_sent s1 \<noteq> sigkill_sent s0"
    and "lowmem_deathpending_timeout s2 = lowmem_deathpending_timeout s1"
    and "time_before_eq now' (now + HZ cfg)"
    and "t \<in> set (tasks s2)" and "\<not> pf_kthread t" and "has_mm t" and "lmk_waiting t"
  shows "lowmem_deathpending_timeout s1 = now + HZ cfg
     \<and> lowmem_scan cfg prm' vm' now' s2 = (0, s2)"
proof -
  from lowmem_scan_cases [OF assms(1)] assms(2)
  obtain k where "s1 = dispatch cfg now k s0" by auto
  then have tmo: "lowmem_deathpending_timeout s1 = now + HZ cfg"
    by (simp add: dispatch_fields)
  with assms(3,4) have "time_before_eq now' (lowmem_deathpending_timeout s2)" by simp
  from lowmem_scan_deferred [OF this assms(5-8)] tmo show ?thesis by simp
qed

theorem cooldown_defers_witness:
  "lowmem_scan cfg_plain default_params (vm_of 2000 0 0) 5 ex_state = (500, ex_state_killed)
   \<and> sigkill_sent ex_state_killed \<noteq> sigkill_sent ex_state
   \<and> time_before_eq 50 (5 + HZ cfg_plain)
   \<and> ex_task False True 8 500 \<in> set (tasks ex_state_killed)
   \<and> lmk_waiting (ex_task False True 8 500)
   \<and> lowmem_deathpending_timeout ex_state_killed = 5 + HZ cfg_plain
   \<and> lowmem_scan cfg_plain default_params (vm_of 100 0 0) 50 ex_state_killed = (0, ex_state_killed)"
proof -
  have h1: "lowmem_scan cfg_plain default_params (vm_of 2000 0 0) 5 ex_state = (500, ex_state_killed)"
    by code_simp
  have h2: "sigkill_sent ex_state_killed \<noteq> sigkill_sent ex_state" by code_simp
  have h4: "time_before_eq 50 (5 + HZ cfg_plain)" by code_simp
  have h5: "ex_task False True 8 500 \<in> set (tasks ex_state_killed)"
    by (simp add: ex_state_killed_def ex_tasks_def)
  have h6: "\<not> pf_kthread (ex_task False True 8 500)" "has_mm (ex_task False True 8 500)"
    "lmk_waiting (ex_task False True 8 500)"
    by (simp_all add: ex_task_def)
  from cooldown_defers [OF h1 h2 refl h4 h5 h6, of default_params "vm_of 100 0 0"] h1 h2 h4 h5 h6
  show ?thesis by blast
qed

text \<open>
  C7. A call either sends no signal or sends exactly one. When it sends one, to the task
  at position \<open>k\<close>, the value returned is that task's resident size (which is not 0).
  When it sends none the value returned is 0: so it is when no tier triggered, when no
  task is eligible, and when the call is deferred by a pending exit. The result of the
  function is this one \<open>unsigned long\<close>.
\<close>

theorem lowmem_scan_return_value:
  assumes "lowmem_scan cfg prm vm jif s = (r, s')"
  shows "(sigkill_sent s' = sigkill_sent s \<or> (\<exists>k. sigkill_sent s' = sigkill_sent s @ [k]))
     \<and> (\<forall>k. sigkill_sent s' = sigkill_sent s @ [k] \<longrightarrow>
           k < length (tasks s) \<and> uint r = sint (rss (tasks s ! k)) \<and> r \<noteq> 0)
     \<and> (sigkill_sent s' = sigkill_sent s \<longrightarrow> r = 0)
     \<and> (no_cutoff (min_score_adj (tier_lookup cfg prm vm)) \<longrightarrow> r = 0)
     \<and> ((\<forall>t\<in>set (tasks s). \<not> eligible (min_score_adj (tier_lookup cfg prm vm)) t) \<longrightarrow> r = 0)
     \<and> (time_before_eq jif (lowmem_deathpending_timeout s)
          \<and> (\<exists>t\<in>set (tasks s). \<not> pf_kthread t \<and> has_mm t \<and> lmk_waiting t) \<longrightarrow> r = 0)"
proof -
  let ?c = "min_score_adj (tier_lookup cfg prm vm)"
  have idle: "no_cutoff ?c \<longrightarrow> r = 0"
    using lowmem_scan_no_cutoff [of cfg prm vm jif s] assms by auto
  have novictim: "(\<forall>t\<in>set (tasks s). \<not> eligible ?c t) \<longrightarrow> r = 0"
    using lowmem_scan_none_eligible [of s cfg prm vm jif] assms by auto
  have deferred: "time_before_eq jif (lowmem_deathpending_timeout s)
          \<and> (\<exists>t\<in>set (tasks s). \<not> pf_kthread t \<and> has_mm t \<and> lmk_waiting t) \<longrightarrow> r = 0"
    using lowmem_scan_deferred [of jif s _ cfg prm vm] assms by auto
  from lowmem_scan_cases [OF assms]
  consider (none) "r = 0" "s' = s"
    | (kill) k sz adj where
        "scan_tasks jif (lowmem_deathpending_timeout s) ?c (tasks s) 0 (None, 0, ?c)
           = Scanned (Some k, sz, adj)"
        "r = scast sz" "s' = dispatch cfg jif k s"
    by blast
  then have "(sigkill_sent s' = sigkill_sent s \<or> (\<exists>k. sigkill_sent s' = sigkill_sent s @ [k]))
     \<and> (\<forall>k. sigkill_sent s' = sigkill_sent s @ [k] \<longrightarrow>
           k < length (tasks s) \<and> uint r = sint (rss (tasks s ! k)) \<and> r \<noteq> 0)
     \<and> (sigkill_sent s' = sigkill_sent s \<longrightarrow> r = 0)"
  proof cases
    case none
    then show ?thesis by simp
  next
    case kill
    from scan_tasks_selected [OF kill(1)]
    have k: "k < length (tasks s)" and e: "eligible ?c (tasks s ! k)" and sz: "sz = rss (tasks s ! k)"
      by (simp_all add: sel_inv_def)
    from e sz have pos: "0 <s sz" by (simp add: eligible_def word_sless_alt word_sle_eq)
    from scast_pos [OF pos] scast_pos_ne [OF pos] kill(2) sz
    have "uint r = sint (rss (tasks s ! k))" "r \<noteq> 0" by simp_all
    with k kill(3) show ?thesis by (simp add: dispatch_fields)
  qed
  with idle novictim deferred show ?thesis by blast
qed

theorem lowmem_scan_return_value_witness:
  "lowmem_scan cfg_plain default_params (vm_of 2000 0 0) 5 ex_state = (500, ex_state_killed)
   \<and> sigkill_sent ex_state_killed = sigkill_sent ex_state @ [2]
   \<and> uint (500 :: ulong) = sint (rss (tasks ex_state ! 2))
   \<and> lowmem_scan cfg_plain default_params (vm_of 20000 0 0) 5 ex_state = (0, ex_state)
   \<and> no_cutoff (min_score_adj (tier_lookup cfg_plain default_params (vm_of 20000 0 0)))
   \<and> lowmem_scan cfg_plain default_params (vm_of 100 0 0) 50 ex_state_killed = (0, ex_state_killed)
   \<and> time_before_eq 50 (lowmem_deathpending_timeout ex_state_killed)"
proof -
  have h1: "lowmem_scan cfg_plain default_params (vm_of 2000 0 0) 5 ex_state = (500, ex_state_killed)"
    by code_simp
  have k1: "sigkill_sent ex_state_killed = sigkill_sent ex_state @ [2]" by code_simp
  from lowmem_scan_return_value [OF h1] k1
  have r1: "uint (500 :: ulong) = sint (rss (tasks ex_state ! 2))" by blast
  obtain r s' where h2: "lowmem_scan cfg_plain default_params (vm_of 20000 0 0) 5 ex_state = (r, s')"
    by (cases "lowmem_scan cfg_plain default_params (vm_of 20000 0 0) 5 ex_state")
  have n2: "no_cutoff (min_score_adj (tier_lookup cfg_plain default_params (vm_of 20000 0 0)))"
    by code_simp
  from lowmem_scan_return_value [OF h2] n2 have "r = 0" by blast
  moreover have "snd (lowmem_scan cfg_plain default_params (vm_of 20000 0 0) 5 ex_state) = ex_state"
    by code_simp
  ultimately have r2: "lowmem_scan cfg_plain default_params (vm_of 20000 0 0) 5 ex_state = (0, ex_state)"
    using h2 by simp
  obtain r3 s3 where h3: "lowmem_scan cfg_plain default_params (vm_of 100 0 0) 50 ex_state_killed = (r3, s3)"
    by (cases "lowmem_scan cfg_plain default_params (vm_of 100 0 0) 50 ex_state_killed")
  have t3: "time_before_eq 50 (lowmem_deathpending_timeout ex_state_killed)" by code_simp
  have m3: "ex_task False True 8 500 \<in> set (tasks ex_state_killed)"
    by (simp add: ex_state_killed_def ex_tasks_def)
  have f3: "\<not> pf_kthread (ex_task False True 8 500) \<and> has_mm (ex_task False True 8 500)
            \<and> lmk_waiting (ex_task False True 8 500)"
    by (simp add: ex_task_def)
  from lowmem_scan_return_value [OF h3] t3 m3 f3 have "r3 = 0" by blast
  moreover have "snd (lowmem_scan cfg_plain default_params (vm_of 100 0 0) 50 ex_state_killed)
                   = ex_state_killed"
    by code_simp
  ultimately have r3: "lowmem_scan cfg_plain default_params (vm_of 100 0 0) 50 ex_state_killed
                         = (0, ex_state_killed)"
    using h3 by simp
  from h1 k1 r1 r2 n2 r3 t3 show ?thesis by blast
qed

text \<open>
  C9. A call that sends no signal leaves the whole state as it was, the deadline and
  every waiting flag included: so it is when no tier triggered, when no task is eligible
  and when the call is deferred. A call after which the deadline or a flag differs is one
  that ran the dispatch block, which also sent the signal.
\<close>

theorem no_dispatch_no_change:
  assumes "lowmem_scan cfg prm vm jif s = (r, s')"
  shows "(sigkill_sent s' = sigkill_sent s \<longrightarrow> s' = s)
     \<and> (lowmem_deathpending_timeout s' \<noteq> lowmem_deathpending_timeout s \<or> tasks s' \<noteq> tasks s \<longrightarrow>
          (\<exists>k. s' = dispatch cfg jif k s \<and> sigkill_sent s' = sigkill_sent s @ [k]))
     \<and> (no_cutoff (min_score_adj (tier_lookup cfg prm vm)) \<longrightarrow> s' = s)
     \<and> ((\<forall>t\<in>set (tasks s). \<not> eligible (min_score_adj (tier_lookup cfg prm vm)) t) \<longrightarrow> s' = s)
     \<and> (time_before_eq jif (lowmem_deathpending_timeout s)
          \<and> (\<exists>t\<in>set (tasks s). \<not> pf_kthread t \<and> has_mm t \<and> lmk_waiting t) \<longrightarrow> s' = s)"
proof -
  let ?c = "min_score_adj (tier_lookup cfg prm vm)"
  have idle: "no_cutoff ?c \<longrightarrow> s' = s"
    using lowmem_scan_no_cutoff [of cfg prm vm jif s] assms by auto
  have novictim: "(\<forall>t\<in>set (tasks s). \<not> eligible ?c t) \<longrightarrow> s' = s"
    using lowmem_scan_none_eligible [of s cfg prm vm jif] assms by auto
  have deferred: "time_before_eq jif (lowmem_deathpending_timeout s)
          \<and> (\<exists>t\<in>set (tasks s). \<not> pf_kthread t \<and> has_mm t \<and> lmk_waiting t) \<longrightarrow> s' = s"
    using lowmem_scan_deferred [of jif s _ cfg prm vm] assms by auto
  from lowmem_scan_cases [OF assms]
  have "s' = s \<or> (\<exists>k. s' = dispatch cfg jif k s)" by blast
  then have "(sigkill_sent s' = sigkill_sent s \<longrightarrow> s' = s)
     \<and> (lowmem_deathpending_timeout s' \<noteq> lowmem_deathpending_timeout s \<or> tasks s' \<noteq> tasks s \<longrightarrow>
          (\<exists>k. s' = dispatch cfg jif k s \<and> sigkill_sent s' = sigkill_sent s @ [k]))"
    by (auto simp: dispatch_fields)
  with idle novictim deferred show ?thesis by blast
qed

theorem no_dispatch_no_change_witness:
  "lowmem_scan cfg_plain default_params (vm_of 100 0 0) 50 ex_state_killed = (0, ex_state_killed)
   \<and> time_before_eq 50 (lowmem_deathpending_timeout ex_state_killed)
   \<and> lowmem_scan cfg_plain default_params (vm_of 20000 0 0) 5 ex_state = (0, ex_state)
   \<and> lowmem_scan cfg_plain default_params (vm_of 2000 0 0) 5 ex_state = (500, ex_state_killed)
   \<and> lowmem_deathpending_timeout ex_state_killed \<noteq> lowmem_deathpending_timeout ex_state
   \<and> ex_state_killed = dispatch cfg_plain 5 2 ex_state"
proof -
  obtain r3 s3 where h3: "lowmem_scan cfg_plain default_params (vm_of 100 0 0) 50 ex_state_killed = (r3, s3)"
    by (cases "lowmem_scan cfg_plain default_params (vm_of 100 0 0) 50 ex_state_killed")
  have t3: "time_before_eq 50 (lowmem_deathpending_timeout ex_state_killed)" by code_simp
  have m3: "ex_task False True 8 500 \<in> set (tasks ex_state_killed)"
    by (simp add: ex_state_killed_def ex_tasks_def)
  have f3: "\<not> pf_kthread (ex_task False True 8 500) \<and> has_mm (ex_task False True 8 500)
            \<and> lmk_waiting (ex_task False True 8 500)"
    by (simp add: ex_task_def)
  from no_dispatch_no_change [OF h3] t3 m3 f3 have "s3 = ex_state_killed" by blast
  moreover have "fst (lowmem_scan cfg_plain default_params (vm_of 100 0 0) 50 ex_state_killed) = 0"
    by code_simp
  ultimately have r3: "lowmem_scan cfg_plain default_params (vm_of 100 0 0) 50 ex_state_killed
                         = (0, ex_state_killed)"
    using h3 by simp
  obtain r s' where h2: "lowmem_scan cfg_plain default_params (vm_of 20000 0 0) 5 ex_state = (r, s')"
    by (cases "lowmem_scan cfg_plain default_params (vm_of 20000 0 0) 5 ex_state")
  have n2: "no_cutoff (min_score_adj (tier_lookup cfg_plain default_params (vm_of 20000 0 0)))"
    by code_simp
  from no_dispatch_no_change [OF h2] n2 have "s' = ex_state" by blast
  moreover have "fst (lowmem_scan cfg_plain default_params (vm_of 20000 0 0) 5 ex_state) = 0"
    by code_simp
  ultimately have r2: "lowmem_scan cfg_plain default_params (vm_of 20000 0 0) 5 ex_state = (0, ex_state)"
    using h2 by simp
  have h1: "lowmem_scan cfg_plain default_params (vm_of 2000 0 0) 5 ex_state = (500, ex_state_killed)"
    by code_simp
  have d1: "lowmem_deathpending_timeout ex_state_killed \<noteq> lowmem_deathpending_timeout ex_state"
    by code_simp
  from no_dispatch_no_change [OF h1] d1
  obtain k where k: "ex_state_killed = dispatch cfg_plain 5 k ex_state"
    "sigkill_sent ex_state_killed = sigkill_sent ex_state @ [k]" by blast
  from k(2) have "k = 2" by (simp add: ex_state_killed_def ex_state_def)
  with k(1) have r1: "ex_state_killed = dispatch cfg_plain 5 2 ex_state" by simp
  from r3 t3 r2 h1 d1 r1 show ?thesis by blast
qed

text \<open>
  C10. Once the deadline has passed, the waiting flags have no effect on a call: the scan
  is never deferred, eligibility does not look at the flag, and the value returned and the
  signals sent are the same whatever the flags are. A task that is still marked as
  waiting is selected like any other and is sent the signal again.
\<close>

theorem expired_flag_has_no_effect:
  assumes "\<not> time_before_eq jif (lowmem_deathpending_timeout s)"
  shows
    "fst (lowmem_scan cfg prm vm jif (s \<lparr> tasks := map (\<lambda>t. t \<lparr> lmk_waiting := w \<rparr>) (tasks s) \<rparr>))
       = fst (lowmem_scan cfg prm vm jif s)
     \<and> sigkill_sent
          (snd (lowmem_scan cfg prm vm jif (s \<lparr> tasks := map (\<lambda>t. t \<lparr> lmk_waiting := w \<rparr>) (tasks s) \<rparr>)))
       = sigkill_sent (snd (lowmem_scan cfg prm vm jif s))
     \<and> scan_tasks jif (lowmem_deathpending_timeout s) c (tasks s) i sel \<noteq> Deferred
     \<and> (\<forall>t. eligible c (t \<lparr> lmk_waiting := w \<rparr>) = eligible c t)
     \<and> (\<forall>k sz adj.
          \<not> no_cutoff (min_score_adj (tier_lookup cfg prm vm))
          \<and> scan_tasks jif (lowmem_deathpending_timeout s) (min_score_adj (tier_lookup cfg prm vm))
               (tasks s) 0 (None, 0, min_score_adj (tier_lookup cfg prm vm))
             = Scanned (Some k, sz, adj)
          \<longrightarrow> sigkill_sent (snd (lowmem_scan cfg prm vm jif s)) = sigkill_sent s @ [k])"
proof -
  let ?c = "min_score_adj (tier_lookup cfg prm vm)"
  let ?s = "s \<lparr> tasks := map (\<lambda>t. t \<lparr> lmk_waiting := w \<rparr>) (tasks s) \<rparr>"
  have scan: "scan_tasks jif (lowmem_deathpending_timeout ?s) ?c (tasks ?s) 0 (None, 0, ?c)
                = scan_tasks jif (lowmem_deathpending_timeout s) ?c (tasks s) 0 (None, 0, ?c)"
    using scan_tasks_flag_irrelevant [OF assms] by simp
  have a: "fst (lowmem_scan cfg prm vm jif ?s) = fst (lowmem_scan cfg prm vm jif s)"
    unfolding lowmem_scan_def Let_def scan
    by (simp split: scan_result.splits option.splits prod.splits)
  have b: "sigkill_sent (snd (lowmem_scan cfg prm vm jif ?s))
             = sigkill_sent (snd (lowmem_scan cfg prm vm jif s))"
    unfolding lowmem_scan_def Let_def scan
    by (simp add: dispatch_fields split: scan_result.splits option.splits prod.splits)
  have c: "scan_tasks jif (lowmem_deathpending_timeout s) c (tasks s) i sel \<noteq> Deferred"
    by (rule scan_tasks_not_deferred [OF assms])
  have d: "\<forall>t. eligible c (t \<lparr> lmk_waiting := w \<rparr>) = eligible c t"
    by (simp add: eligible_def)
  have e: "\<forall>k sz adj.
          \<not> no_cutoff ?c
          \<and> scan_tasks jif (lowmem_deathpending_timeout s) ?c (tasks s) 0 (None, 0, ?c)
             = Scanned (Some k, sz, adj)
          \<longrightarrow> sigkill_sent (snd (lowmem_scan cfg prm vm jif s)) = sigkill_sent s @ [k]"
    by (simp add: lowmem_scan_def dispatch_fields)
  from a b c d e show ?thesis by blast
qed

theorem expired_flag_has_no_effect_witness:
  "\<not> time_before_eq 106 (lowmem_deathpending_timeout ex_state_killed)
   \<and> lmk_waiting (tasks ex_state_killed ! 2)
   \<and> fst (lowmem_scan cfg_plain default_params (vm_of 2000 0 0) 106 ex_state_killed) = 500
   \<and> fst (lowmem_scan cfg_plain default_params (vm_of 2000 0 0) 106
            (ex_state_killed \<lparr> tasks := map (\<lambda>t. t \<lparr> lmk_waiting := False \<rparr>) (tasks ex_state_killed) \<rparr>))
       = 500
   \<and> sigkill_sent (snd (lowmem_scan cfg_plain default_params (vm_of 2000 0 0) 106 ex_state_killed))
       = [2, 2]"
proof -
  let ?c = "min_score_adj (tier_lookup cfg_plain default_params (vm_of 2000 0 0))"
  have h: "\<not> time_before_eq 106 (lowmem_deathpending_timeout ex_state_killed)" by code_simp
  have w: "lmk_waiting (tasks ex_state_killed ! 2)" by code_simp
  have v: "fst (lowmem_scan cfg_plain default_params (vm_of 2000 0 0) 106 ex_state_killed) = 500"
    by code_simp
  have n: "\<not> no_cutoff ?c" by code_simp
  have sc: "scan_tasks 106 (lowmem_deathpending_timeout ex_state_killed) ?c (tasks ex_state_killed) 0
              (None, 0, ?c) = Scanned (Some 2, 500, 8)"
    by code_simp
  note T = expired_flag_has_no_effect [OF h, of cfg_plain default_params "vm_of 2000 0 0" False]
  from T v have r1: "fst (lowmem_scan cfg_plain default_params (vm_of 2000 0 0) 106
            (ex_state_killed \<lparr> tasks := map (\<lambda>t. t \<lparr> lmk_waiting := False \<rparr>) (tasks ex_state_killed) \<rparr>))
       = 500"
    by simp
  from T n sc
  have "sigkill_sent (snd (lowmem_scan cfg_plain default_params (vm_of 2000 0 0) 106 ex_state_killed))
          = sigkill_sent ex_state_killed @ [2]"
    by blast
  then have r2: "sigkill_sent (snd (lowmem_scan cfg_plain default_params (vm_of 2000 0 0) 106 ex_state_killed))
       = [2, 2]"
    by (simp add: ex_state_killed_def)
  from h w v r1 r2 show ?thesis by blast
qed

end
